theory Spec2Isabelle
  imports Main "HOL-Library.Sublist"
begin

section \<open>Time values and the calendar of the JavaScript \<open>Date\<close> object\<close>

text \<open>
  The application (\<open>src/index.tsx\<close>) computes with JavaScript \<open>Date\<close> objects through
  the built-in methods (\<open>getDay\<close>, \<open>getDate\<close>, \<open>setDate\<close>, \<open>setHours\<close>, \<open>new Date(y, m, d)\<close>)
  and through the \<open>date-fns\<close> library.  Neither is part of the repository, so both are
  modelled from their definitions: the built-in methods from the ECMAScript
  specification (section "Date Objects": \<open>Day\<close>, \<open>TimeWithinDay\<close>, \<open>DayFromYear\<close>,
  \<open>YearFromTime\<close>, \<open>MonthFromTime\<close>, \<open>DateFromTime\<close>, \<open>WeekDay\<close>, \<open>MakeTime\<close>, \<open>MakeDay\<close>,
  \<open>MakeDate\<close>), the library functions from what \<open>date-fns\<close> does with those methods.

  A \<open>Date\<close> holds a time value, a number of milliseconds.  Every method the
  application uses works on local time, so the model takes the time value to be the
  local wall-clock time (milliseconds since 1970-01-01 00:00 local time): the time
  zone has a constant offset and no daylight-saving transitions.  Time values are
  integers; \<open>Invalid Date\<close> and the range limit of \<open>TimeClip\<close> are outside the model
  (both date inputs of the application are \<open>required\<close> inputs of type \<open>date\<close>).
\<close>

type_synonym Date = int

definition msPerDay :: int where "msPerDay = 86400000"
definition msPerHour :: int where "msPerHour = 3600000"
definition msPerMinute :: int where "msPerMinute = 60000"
definition msPerSecond :: int where "msPerSecond = 1000"

definition Day :: "Date \<Rightarrow> int" where
  "Day t = t div msPerDay"

definition TimeWithinDay :: "Date \<Rightarrow> int" where
  "TimeWithinDay t = t mod msPerDay"

definition DaysInYear :: "int \<Rightarrow> int" where
  "DaysInYear y =
     (if y mod 4 \<noteq> 0 then 365
      else if y mod 100 \<noteq> 0 then 366
      else if y mod 400 \<noteq> 0 then 365
      else 366)"

definition DayFromYear :: "int \<Rightarrow> int" where
  "DayFromYear y =
     365 * (y - 1970) + (y - 1969) div 4 - (y - 1901) div 100 + (y - 1601) div 400"

subsection \<open>Arithmetic of \<open>DayFromYear\<close>\<close>

lemma div_succ:
  fixes x k :: int
  assumes k: "0 < k"
  shows "(x + 1) div k = x div k + (if (x + 1) mod k = 0 then 1 else 0)"
proof -
  define q where "q = x div k"
  define r where "r = x mod k"
  have x: "x = k * q + r" unfolding q_def r_def by simp
  have r: "0 \<le> r" "r < k" using k unfolding r_def by simp_all
  show ?thesis
  proof (cases "r + 1 = k")
    case True
    have e: "x + 1 = k * (q + 1) + 0" using x True by (simp add: algebra_simps)
    have "(x + 1) div k = q + 1" by (rule int_div_pos_eq[OF e]) (use k in simp_all)
    moreover have "(x + 1) mod k = 0" by (rule int_mod_pos_eq[OF e]) (use k in simp_all)
    ultimately show ?thesis unfolding q_def by simp
  next
    case False
    have e: "x + 1 = k * q + (r + 1)" using x by simp
    have lt: "r + 1 < k" using False r by simp
    have "(x + 1) div k = q" by (rule int_div_pos_eq[OF e]) (use r lt in simp_all)
    moreover have "(x + 1) mod k = r + 1" by (rule int_mod_pos_eq[OF e]) (use r lt in simp_all)
    ultimately show ?thesis unfolding q_def using r by simp
  qed
qed

lemma mod_shift: "((y::int) - k * c) mod k = y mod k"
proof -
  have "y - k * c = y + (- c) * k" by simp
  then show ?thesis by (simp only: mod_mult_self1)
qed

lemma mod_100_imp_mod_4: "(y::int) mod 100 = 0 \<Longrightarrow> y mod 4 = 0"
proof -
  assume "y mod 100 = 0"
  then have "100 dvd y" by (simp add: mod_eq_0_iff_dvd)
  moreover have "(4::int) dvd 100" by simp
  ultimately have "4 dvd y" by (rule_tac dvd_trans)
  then show ?thesis by (simp add: mod_eq_0_iff_dvd)
qed

lemma mod_400_imp_mod_100: "(y::int) mod 400 = 0 \<Longrightarrow> y mod 100 = 0"
proof -
  assume "y mod 400 = 0"
  then have "400 dvd y" by (simp add: mod_eq_0_iff_dvd)
  moreover have "(100::int) dvd 400" by simp
  ultimately have "100 dvd y" by (rule_tac dvd_trans)
  then show ?thesis by (simp add: mod_eq_0_iff_dvd)
qed

lemma DayFromYear_step: "DayFromYear (y + 1) = DayFromYear y + DaysInYear y"
proof -
  have a: "(y + 1 - 1969) div 4 = (y - 1969) div 4 + (if y mod 4 = 0 then 1 else 0)"
    using div_succ[of 4 "y - 1969"] mod_shift[of y 4 492] by (simp add: algebra_simps)
  have b: "(y + 1 - 1901) div 100 = (y - 1901) div 100 + (if y mod 100 = 0 then 1 else 0)"
    using div_succ[of 100 "y - 1901"] mod_shift[of y 100 19] by (simp add: algebra_simps)
  have c: "(y + 1 - 1601) div 400 = (y - 1601) div 400 + (if y mod 400 = 0 then 1 else 0)"
    using div_succ[of 400 "y - 1601"] mod_shift[of y 400 4] by (simp add: algebra_simps)
  show ?thesis
    unfolding DayFromYear_def DaysInYear_def a b c
    using mod_100_imp_mod_4[of y] mod_400_imp_mod_100[of y] by auto
qed

lemma DaysInYear_bounds: "365 \<le> DaysInYear y" "DaysInYear y \<le> 366"
  by (simp_all add: DaysInYear_def)

lemma DayFromYear_pred: "DayFromYear (y - 1) = DayFromYear y - DaysInYear (y - 1)"
  using DayFromYear_step[of "y - 1"] by simp

subsection \<open>Year, month, date and week day of a time value\<close>

text \<open>
  ECMAScript: \<open>YearFromTime(t)\<close> is the largest integer \<open>y\<close> such that
  \<open>TimeFromYear(y) \<le> t\<close>.  The search starts from an estimate of the year and walks to
  the year whose first day is on or before the day and whose successor's is after it.
\<close>

function YearSearch :: "int \<Rightarrow> int \<Rightarrow> int" where
  "YearSearch d y =
     (if d < DayFromYear y then YearSearch d (y - 1)
      else if DayFromYear (y + 1) \<le> d then YearSearch d (y + 1)
      else y)"
  by pat_completeness auto
termination
proof (relation "measure (\<lambda>(d, y).
         if d < DayFromYear y then nat (DayFromYear y - d) + 366
         else if DayFromYear (y + 1) \<le> d then nat (d - DayFromYear y)
         else 0)", goal_cases)
  case 1
  show ?case by simp
next
  case (2 d y)
  then show ?case
    using DayFromYear_pred[of y] DaysInYear_bounds[of "y - 1"] by auto
next
  case (3 d y)
  then show ?case
    using DayFromYear_step[of y] DayFromYear_step[of "y + 1"]
      DaysInYear_bounds[of y] DaysInYear_bounds[of "y + 1"] by auto
qed

declare YearSearch.simps [simp del]

definition YearFromDay :: "int \<Rightarrow> int" where
  "YearFromDay d = YearSearch d (1970 + (d * 400) div 146097)"

definition YearFromTime :: "Date \<Rightarrow> int" where
  "YearFromTime t = YearFromDay (Day t)"

definition InLeapYear :: "Date \<Rightarrow> int" where
  "InLeapYear t = (if DaysInYear (YearFromTime t) = 366 then 1 else 0)"

definition DayWithinYear :: "Date \<Rightarrow> int" where
  "DayWithinYear t = Day t - DayFromYear (YearFromTime t)"

definition MonthFromTime :: "Date \<Rightarrow> int" where
  "MonthFromTime t =
     (let w = DayWithinYear t; l = InLeapYear t in
      if w < 31 then 0
      else if w < 59 + l then 1
      else if w < 90 + l then 2
      else if w < 120 + l then 3
      else if w < 151 + l then 4
      else if w < 181 + l then 5
      else if w < 212 + l then 6
      else if w < 243 + l then 7
      else if w < 273 + l then 8
      else if w < 304 + l then 9
      else if w < 334 + l then 10
      else 11)"

definition DateFromTime :: "Date \<Rightarrow> int" where
  "DateFromTime t =
     (let w = DayWithinYear t; l = InLeapYear t; m = MonthFromTime t in
      if m = 0 then w + 1
      else if m = 1 then w - 30
      else if m = 2 then w - 58 - l
      else if m = 3 then w - 89 - l
      else if m = 4 then w - 119 - l
      else if m = 5 then w - 150 - l
      else if m = 6 then w - 180 - l
      else if m = 7 then w - 211 - l
      else if m = 8 then w - 242 - l
      else if m = 9 then w - 272 - l
      else if m = 10 then w - 303 - l
      else w - 333 - l)"

definition WeekDay :: "Date \<Rightarrow> int" where
  "WeekDay t = (Day t + 4) mod 7"

definition HourFromTime :: "Date \<Rightarrow> int" where
  "HourFromTime t = (t div msPerHour) mod 24"

definition MinFromTime :: "Date \<Rightarrow> int" where
  "MinFromTime t = (t div msPerMinute) mod 60"

definition SecFromTime :: "Date \<Rightarrow> int" where
  "SecFromTime t = (t div msPerSecond) mod 60"

definition msFromTime :: "Date \<Rightarrow> int" where
  "msFromTime t = t mod msPerSecond"

definition MakeTime :: "int \<Rightarrow> int \<Rightarrow> int \<Rightarrow> int \<Rightarrow> int" where
  "MakeTime h m s milli = h * msPerHour + m * msPerMinute + s * msPerSecond + milli"

text \<open>
  \<open>MonthStartDay mn l\<close> is the day within the year of the first day of month \<open>mn\<close>
  (0 to 11), \<open>l\<close> being 1 in a leap year: the table that \<open>MonthFromTime\<close> inverts.
  ECMAScript's \<open>MakeDay(year, month, date)\<close> normalises the month into a year and a
  month of 0 to 11, takes the day number of the first day of that month and adds
  \<open>date - 1\<close>, so that a date of 0 or less reaches back into the preceding month.
\<close>

definition MonthStartDay :: "int \<Rightarrow> int \<Rightarrow> int" where
  "MonthStartDay mn l =
     (if mn = 0 then 0
      else if mn = 1 then 31
      else if mn = 2 then 59 + l
      else if mn = 3 then 90 + l
      else if mn = 4 then 120 + l
      else if mn = 5 then 151 + l
      else if mn = 6 then 181 + l
      else if mn = 7 then 212 + l
      else if mn = 8 then 243 + l
      else if mn = 9 then 273 + l
      else if mn = 10 then 304 + l
      else 334 + l)"

definition MakeDay :: "int \<Rightarrow> int \<Rightarrow> int \<Rightarrow> int" where
  "MakeDay year month date =
     (let ym = year + month div 12;
          mn = month mod 12;
          l = (if DaysInYear ym = 366 then 1 else 0)
      in DayFromYear ym + MonthStartDay mn l + date - 1)"

definition MakeDate :: "int \<Rightarrow> int \<Rightarrow> Date" where
  "MakeDate day time = day * msPerDay + time"

subsection \<open>Facts about the calendar\<close>

lemma YearSearch_spec:
  "DayFromYear (YearSearch d y) \<le> d \<and> d < DayFromYear (YearSearch d y + 1)"
proof (induction d y rule: YearSearch.induct)
  case (1 d y)
  show ?case
  proof (cases "d < DayFromYear y")
    case True
    then show ?thesis using 1(1) by (subst YearSearch.simps, subst (2) YearSearch.simps) simp
  next
    case False
    show ?thesis
    proof (cases "DayFromYear (y + 1) \<le> d")
      case True
      then show ?thesis using False 1(2)
        by (subst YearSearch.simps, subst (2) YearSearch.simps) simp
    next
      case F2: False
      then show ?thesis using False
        by (subst YearSearch.simps, subst (2) YearSearch.simps) simp
    qed
  qed
qed

lemma YearFromDay_spec:
  "DayFromYear (YearFromDay d) \<le> d" "d < DayFromYear (YearFromDay d + 1)"
  using YearSearch_spec[of d] by (simp_all add: YearFromDay_def)

lemma DayFromYear_mono: "y \<le> y' \<Longrightarrow> DayFromYear y \<le> DayFromYear y'"
proof (induction y' rule: int_ge_induct)
  case base
  show ?case by simp
next
  case (step i)
  then show ?case using DayFromYear_step[of i] DaysInYear_bounds[of i] by simp
qed

lemma YearFromDay_unique:
  assumes "DayFromYear y \<le> d" "d < DayFromYear (y + 1)"
  shows "YearFromDay d = y"
proof (rule ccontr)
  assume ne: "YearFromDay d \<noteq> y"
  show False
  proof (cases "YearFromDay d < y")
    case True
    then have "DayFromYear (YearFromDay d + 1) \<le> DayFromYear y"
      by (intro DayFromYear_mono) simp
    then show False using YearFromDay_spec(2)[of d] assms(1) by simp
  next
    case False
    then have "DayFromYear (y + 1) \<le> DayFromYear (YearFromDay d)"
      using ne by (intro DayFromYear_mono) simp
    then show False using YearFromDay_spec(1)[of d] assms(2) by simp
  qed
qed

lemma DayWithinYear_bounds:
  "0 \<le> DayWithinYear t" "DayWithinYear t < DaysInYear (YearFromTime t)"
  using YearFromDay_spec[of "Day t"] DayFromYear_step[of "YearFromTime t"]
  by (simp_all add: DayWithinYear_def YearFromTime_def)

lemma MonthFromTime_range: "0 \<le> MonthFromTime t" "MonthFromTime t \<le> 11"
  by (simp_all add: MonthFromTime_def Let_def)

lemma MakeDay_fields:
  "MakeDay (YearFromTime t) (MonthFromTime t) (DateFromTime t + k) = Day t + k"
proof -
  have m: "MonthFromTime t div 12 = 0" "MonthFromTime t mod 12 = MonthFromTime t"
    using MonthFromTime_range[of t] by simp_all
  have "MonthStartDay (MonthFromTime t) (InLeapYear t) + DateFromTime t - 1 = DayWithinYear t"
    using DayWithinYear_bounds[of t]
    by (simp add: MonthStartDay_def DateFromTime_def MonthFromTime_def Let_def)
  then show ?thesis
    unfolding MakeDay_def Let_def m
    by (simp add: InLeapYear_def DayWithinYear_def)
qed

lemma msPerDay_pos: "0 < msPerDay"
  by (simp add: msPerDay_def)

lemma Day_MakeDate: "0 \<le> tm \<Longrightarrow> tm < msPerDay \<Longrightarrow> Day (MakeDate d tm) = d"
  unfolding Day_def MakeDate_def
  by (rule int_div_pos_eq[of _ _ _ tm]) (simp_all add: mult.commute)

lemma TimeWithinDay_MakeDate:
  "0 \<le> tm \<Longrightarrow> tm < msPerDay \<Longrightarrow> TimeWithinDay (MakeDate d tm) = tm"
  unfolding TimeWithinDay_def MakeDate_def
  by (rule int_mod_pos_eq[of _ _ d]) (simp_all add: mult.commute)

lemma TimeWithinDay_range: "0 \<le> TimeWithinDay t" "TimeWithinDay t < msPerDay"
  using msPerDay_pos by (simp_all add: TimeWithinDay_def)

lemma MakeDate_Day: "MakeDate (Day t) (TimeWithinDay t) = t"
  by (simp add: MakeDate_def Day_def TimeWithinDay_def)

lemma Day_shift: "Day (t + k * msPerDay) = Day t + k"
  using msPerDay_pos by (simp add: Day_def)

lemma TimeWithinDay_shift: "TimeWithinDay (t + k * msPerDay) = TimeWithinDay t"
  by (simp add: TimeWithinDay_def)

lemma WeekDay_range: "0 \<le> WeekDay t" "WeekDay t \<le> 6"
  by (simp_all add: WeekDay_def)

section \<open>The methods of \<open>Date\<close> and the functions of \<open>date-fns\<close>\<close>

text \<open>
  The methods of \<open>Date\<close> that read a field, and the setters as functions from the time
  value of the object to its new time value (ECMAScript, \<open>Date.prototype.setDate\<close>,
  \<open>setHours\<close>, \<open>setMinutes\<close>, \<open>setFullYear\<close>; \<open>Date_setHours4\<close> is \<open>setHours\<close> with its
  four arguments).  \<open>newDate3\<close> and \<open>newDate5\<close> are the constructor \<open>new Date(y, m, d)\<close>
  and \<open>new Date(y, m, d, h, min)\<close>, where a year from 0 to 99 means 1900 + year.
\<close>

definition getFullYear :: "Date \<Rightarrow> int" where "getFullYear t = YearFromTime t"
definition getMonth :: "Date \<Rightarrow> int" where "getMonth t = MonthFromTime t"
definition getDate :: "Date \<Rightarrow> int" where "getDate t = DateFromTime t"
definition getDay :: "Date \<Rightarrow> int" where "getDay t = WeekDay t"

definition Date_setDate :: "Date \<Rightarrow> int \<Rightarrow> Date" where
  "Date_setDate t dt = MakeDate (MakeDay (YearFromTime t) (MonthFromTime t) dt) (TimeWithinDay t)"

definition Date_setHours :: "Date \<Rightarrow> int \<Rightarrow> Date" where
  "Date_setHours t h = MakeDate (Day t) (MakeTime h (MinFromTime t) (SecFromTime t) (msFromTime t))"

definition Date_setHours4 :: "Date \<Rightarrow> int \<Rightarrow> int \<Rightarrow> int \<Rightarrow> int \<Rightarrow> Date" where
  "Date_setHours4 t h m s milli = MakeDate (Day t) (MakeTime h m s milli)"

definition Date_setMinutes :: "Date \<Rightarrow> int \<Rightarrow> Date" where
  "Date_setMinutes t m = MakeDate (Day t) (MakeTime (HourFromTime t) m (SecFromTime t) (msFromTime t))"

definition Date_setFullYear :: "Date \<Rightarrow> int \<Rightarrow> int \<Rightarrow> int \<Rightarrow> Date" where
  "Date_setFullYear t y m dt = MakeDate (MakeDay y m dt) (TimeWithinDay t)"

definition fullYear :: "int \<Rightarrow> int" where
  "fullYear y = (if 0 \<le> y \<and> y \<le> 99 then 1900 + y else y)"

definition newDate3 :: "int \<Rightarrow> int \<Rightarrow> int \<Rightarrow> Date" where
  "newDate3 y m dt = MakeDate (MakeDay (fullYear y) m dt) (MakeTime 0 0 0 0)"

definition newDate5 :: "int \<Rightarrow> int \<Rightarrow> int \<Rightarrow> int \<Rightarrow> int \<Rightarrow> Date" where
  "newDate5 y m dt h mi = MakeDate (MakeDay (fullYear y) m dt) (MakeTime h mi 0 0)"

text \<open>
  The functions of \<open>date-fns\<close> that the application imports.  Each of them copies its
  argument and applies the methods above to the copy, so on time values they are the
  functions below.  \<open>weekStartsOn\<close> is the library's default, Sunday.
\<close>

definition weekStartsOn :: int where "weekStartsOn = 0"

definition startOfDay :: "Date \<Rightarrow> Date" where
  "startOfDay t = Date_setHours4 t 0 0 0 0"

definition startOfMonth :: "Date \<Rightarrow> Date" where
  "startOfMonth t = Date_setHours4 (Date_setDate t 1) 0 0 0 0"

definition endOfMonth :: "Date \<Rightarrow> Date" where
  "endOfMonth t =
     (let month = getMonth t in
      Date_setHours4 (Date_setFullYear t (getFullYear t) (month + 1) 0) 23 59 59 999)"

definition startOfWeek :: "Date \<Rightarrow> Date" where
  "startOfWeek t =
     (let day = getDay t;
          diff = (if day < weekStartsOn then 7 else 0) + day - weekStartsOn
      in Date_setHours4 (Date_setDate t (getDate t - diff)) 0 0 0 0)"

definition endOfWeek :: "Date \<Rightarrow> Date" where
  "endOfWeek t =
     (let day = getDay t;
          diff = (if day < weekStartsOn then - 7 else 0) + 6 - (day - weekStartsOn)
      in Date_setHours4 (Date_setDate t (getDate t + diff)) 23 59 59 999)"

definition startOfYear :: "Date \<Rightarrow> Date" where
  "startOfYear t = Date_setHours4 (Date_setFullYear t (getFullYear t) 0 1) 0 0 0 0"

definition addDays :: "Date \<Rightarrow> int \<Rightarrow> Date" where
  "addDays t amount = (if amount = 0 then t else Date_setDate t (getDate t + amount))"

definition addWeeks :: "Date \<Rightarrow> int \<Rightarrow> Date" where
  "addWeeks t amount = addDays t (amount * 7)"

definition setHours :: "Date \<Rightarrow> int \<Rightarrow> Date" where
  "setHours t hours = Date_setHours t hours"

definition setMinutes :: "Date \<Rightarrow> int \<Rightarrow> Date" where
  "setMinutes t minutes = Date_setMinutes t minutes"

definition isSameDay :: "Date \<Rightarrow> Date \<Rightarrow> bool" where
  "isSameDay a b = (startOfDay a = startOfDay b)"

lemma Date_setDate_shift: "Date_setDate t (getDate t + k) = t + k * msPerDay"
proof -
  have "Date_setDate t (getDate t + k) = MakeDate (Day t + k) (TimeWithinDay t)"
    by (simp add: Date_setDate_def getDate_def MakeDay_fields)
  also have "\<dots> = MakeDate (Day t) (TimeWithinDay t) + k * msPerDay"
    by (simp add: MakeDate_def algebra_simps)
  finally show ?thesis by (simp add: MakeDate_Day)
qed

lemma Date_setHours4_zero: "Date_setHours4 t 0 0 0 0 = Day t * msPerDay"
  by (simp add: Date_setHours4_def MakeDate_def MakeTime_def)

lemma startOfDay_eq: "startOfDay t = Day t * msPerDay"
  by (simp add: startOfDay_def Date_setHours4_zero)

lemma Day_lower: "Day t * msPerDay \<le> t"
  using MakeDate_Day[of t] TimeWithinDay_range[of t] by (simp add: MakeDate_def)

lemma Day_upper: "t < (Day t + 1) * msPerDay"
  using MakeDate_Day[of t] TimeWithinDay_range[of t] by (simp add: MakeDate_def algebra_simps)

lemma next_day_start:
  "Date_setHours4 (Date_setDate t (getDate t + 1)) 0 0 0 0 = (Day t + 1) * msPerDay"
  using Day_shift[of t 1] by (simp add: Date_setDate_shift Date_setHours4_zero)

text \<open>
  \<open>eachDayOfInterval\<close>: the library sets its copy of the start to midnight and, while
  it is not after the end, pushes a copy and moves it one day on with
  \<open>setDate(getDate() + 1)\<close> and \<open>setHours(0, 0, 0, 0)\<close>.  An interval whose start is
  after its end is walked from its end and returned reversed (version 2 of the library
  throws a \<open>RangeError\<close> there); the calendar view never passes such an interval.
\<close>

function eachDayLoop :: "Date \<Rightarrow> Date \<Rightarrow> Date list" where
  "eachDayLoop date endTime =
     (if date \<le> endTime
      then date # eachDayLoop (Date_setHours4 (Date_setDate date (getDate date + 1)) 0 0 0 0) endTime
      else [])"
  by pat_completeness auto
termination
proof (relation "measure (\<lambda>(date, endTime). nat (endTime - date + 1))", goal_cases)
  case 1
  show ?case by simp
next
  case (2 date endTime)
  then show ?case using Day_upper[of date] by (simp add: next_day_start)
qed

declare eachDayLoop.simps [simp del]

definition eachDayOfInterval :: "Date \<Rightarrow> Date \<Rightarrow> Date list" where
  "eachDayOfInterval start en =
     (let reversed = (en < start);
          endTime = (if reversed then start else en);
          date = Date_setHours4 (if reversed then en else start) 0 0 0 0;
          dates = eachDayLoop date endTime
      in if reversed then rev dates else dates)"

section \<open>The data model\<close>

text \<open>
  The types of \<open>src/index.tsx\<close>.  \<open>Floor\<close> is the union of the numbers 1 to 6, so it
  has six values, each a non-zero number; an optional property is an \<open>option\<close>.  The
  fields of the three interfaces carry a prefix, since the interfaces share field
  names.  The event record is parametric in what stands for a \<open>Date\<close> object: its time
  value here, and a reference into a store of \<open>Date\<close> objects where the sharing of
  objects matters.
\<close>

datatype EventCategory = Maintenance | Cleaning | Event

datatype Floor = F1 | F2 | F3 | F4 | F5 | F6

fun floorNumber :: "Floor \<Rightarrow> nat" where
  "floorNumber F1 = 1"
| "floorNumber F2 = 2"
| "floorNumber F3 = 3"
| "floorNumber F4 = 4"
| "floorNumber F5 = 5"
| "floorNumber F6 = 6"

datatype RequestStatus = pending | approved | rejected

record 'd CalendarEvent =
  e_id :: string
  e_title :: string
  e_start :: 'd
  e_end :: 'd
  e_category :: EventCategory
  e_floor :: Floor
  e_room :: string
  e_description :: "string option"
  e_isRecurring :: "bool option"

type_synonym Event = "Date CalendarEvent"

record Request =
  r_id :: string
  r_title :: string
  r_date :: Date
  r_category :: EventCategory
  r_floor :: Floor
  r_room :: string
  r_description :: string
  r_status :: RequestStatus
  r_submittedBy :: "string option"

record FilterState =
  showMaintenance :: bool
  showCleaning :: bool
  showEvents :: bool
  f_floor :: "Floor option"

section \<open>The seed generator\<close>

text \<open>
  \<open>generateId\<close> is \<open>Math.random().toString(36).substr(2, 9)\<close>.  The random number
  generator is the environment's: \<open>rnd k\<close> is the string that the \<open>k\<close>-th call yields,
  and the number of calls made so far is threaded through the generator.
\<close>

definition generateId :: "(nat \<Rightarrow> string) \<Rightarrow> nat \<Rightarrow> string \<times> nat" where
  "generateId rnd k = (rnd k, Suc k)"

definition createEvent ::
  "(nat \<Rightarrow> string) \<Rightarrow> nat \<Rightarrow> string \<Rightarrow> Date \<Rightarrow> EventCategory \<Rightarrow> Floor \<Rightarrow> string \<Rightarrow> int
     \<Rightarrow> Event \<times> nat" where
  "createEvent rnd k title date category floor room durationHours =
     (let start = setMinutes (setHours date 9) 0;
          en = setHours start (9 + durationHours);
          (ident, k') = generateId rnd k
      in (\<lparr>e_id = ident, e_title = title, e_start = start, e_end = en,
           e_category = category, e_floor = floor, e_room = room,
           e_description = None, e_isRecurring = Some True\<rparr>, k'))"

text \<open>
  A store of \<open>Date\<close> objects.  \<open>generateInitialData\<close> binds two variables, \<open>yearStart\<close>
  and \<open>current\<close>, to one object and calls \<open>setDate\<close> on it, so these two are references
  into the store.  No other \<open>Date\<close> of the generator is written to after it is made
  (\<open>createEvent\<close> and \<open>addWeeks\<close> work on copies), so the others are their time values.
\<close>

record Heap =
  cells :: "nat \<Rightarrow> Date"
  fresh :: nat

definition emptyHeap :: Heap where
  "emptyHeap = \<lparr>cells = (\<lambda>_. 0), fresh = 0\<rparr>"

definition alloc :: "Date \<Rightarrow> Heap \<Rightarrow> nat \<times> Heap" where
  "alloc v h = (fresh h, \<lparr>cells = (cells h)(fresh h := v), fresh = Suc (fresh h)\<rparr>)"

definition deref :: "Heap \<Rightarrow> nat \<Rightarrow> Date" where
  "deref h r = cells h r"

definition assign :: "nat \<Rightarrow> Date \<Rightarrow> Heap \<Rightarrow> Heap" where
  "assign r v h = h\<lparr>cells := (cells h)(r := v)\<rparr>"

record Gen =
  g_events :: "Event list"
  g_rand :: nat
  g_heap :: Heap

text \<open>\<open>events.push(createEvent(title, date, category, floor, room))\<close>\<close>

definition push_createEvent ::
  "(nat \<Rightarrow> string) \<Rightarrow> string \<Rightarrow> Date \<Rightarrow> EventCategory \<Rightarrow> Floor \<Rightarrow> string \<Rightarrow> Gen \<Rightarrow> Gen" where
  "push_createEvent rnd title date category floor room st =
     (let (e, k) = createEvent rnd (g_rand st) title date category floor room 1
      in st\<lparr>g_events := g_events st @ [e], g_rand := k\<rparr>)"

function aromaElevatorLoop :: "(nat \<Rightarrow> string) \<Rightarrow> int \<Rightarrow> int \<Rightarrow> Gen \<Rightarrow> Gen" where
  "aromaElevatorLoop rnd year i st =
     (if i < 12
      then aromaElevatorLoop rnd year (i + 1)
             (push_createEvent rnd ''Elevator Maintenance (Eastern)'' (newDate3 year i 5)
                Maintenance F1 ''All Floors''
               (push_createEvent rnd ''Aroma System Check'' (newDate3 year i 1)
                  Maintenance F2 ''Lobby/Sanctuary'' st))
      else st)"
  by pat_completeness auto
termination
  by (relation "measure (\<lambda>(rnd, year, i, st). nat (12 - i))") auto

declare aromaElevatorLoop.simps [simp del]

text \<open>
  The weekly loop.  \<open>current\<close> and \<open>yearStart\<close> are references; \<open>current.setDate(diff)\<close>
  assigns to the object \<open>current\<close> refers to and returns its new time value, from which
  \<open>new Date\<close> makes the object \<open>monday\<close>, which is not used.
\<close>

function chillerLoop :: "(nat \<Rightarrow> string) \<Rightarrow> nat \<Rightarrow> nat \<Rightarrow> int \<Rightarrow> Gen \<Rightarrow> Gen" where
  "chillerLoop rnd yearStart current i st =
     (if i < 52
      then let h = g_heap st;
               day = getDay (deref h current);
               diff = getDate (deref h current) - day + (if day = 0 then - 6 else 1);
               h1 = assign current (Date_setDate (deref h current) diff) h;
               (monday, h2) = alloc (deref h1 current) h1
           in chillerLoop rnd yearStart current (i + 1)
                (push_createEvent rnd ''Chiller Inspection'' (addWeeks (deref h2 yearStart) i)
                   Maintenance F6 ''Rooftop'' (st\<lparr>g_heap := h2\<rparr>))
      else st)"
  by pat_completeness auto
termination
  by (relation "measure (\<lambda>(rnd, yearStart, current, i, st). nat (52 - i))") auto

declare chillerLoop.simps [simp del]

fun greaseLoop :: "(nat \<Rightarrow> string) \<Rightarrow> int \<Rightarrow> int list \<Rightarrow> Gen \<Rightarrow> Gen" where
  "greaseLoop rnd year [] st = st"
| "greaseLoop rnd year (m # ms) st =
     greaseLoop rnd year ms
       (push_createEvent rnd ''Grease Tank/Hood Clean (Yanky)'' (newDate3 year m 10)
          Maintenance F6 ''Kitchen'' st)"

function carpetLoop :: "(nat \<Rightarrow> string) \<Rightarrow> int \<Rightarrow> int \<Rightarrow> Gen \<Rightarrow> Gen" where
  "carpetLoop rnd year i st =
     (if i < 12
      then carpetLoop rnd year (i + 1)
             (push_createEvent rnd ''Carpet Deep Clean'' (newDate3 year i 15)
                Cleaning F2 ''Sanctuary'' st)
      else st)"
  by pat_completeness auto
termination
  by (relation "measure (\<lambda>(rnd, year, i, st). nat (12 - i))") auto

declare carpetLoop.simps [simp del]

text \<open>The events pushed after the loops: the power washing, the annual events, the holidays.\<close>

definition fixedEvents :: "(nat \<Rightarrow> string) \<Rightarrow> int \<Rightarrow> Gen \<Rightarrow> Gen" where
  "fixedEvents rnd year st =
     (let s1 = push_createEvent rnd ''Exterior Power Washing'' (newDate3 year 7 20)
                 Cleaning F1 ''Exterior'' st;
          s2 = push_createEvent rnd ''CTeen Jr Kickoff'' (newDate3 year 7 24)
                 Event F6 ''Rooftop Lounge'' s1;
          s3 = push_createEvent rnd ''Chanukah Parade (CTeen)'' (newDate3 year 11 14)
                 Event F1 ''Garage/Street'' s2;
          s4 = push_createEvent rnd ''Purim Party (CTeen)'' (newDate3 year 2 1)
                 Event F2 ''Sanctuary'' s3;
          s5 = push_createEvent rnd ''BMC Orientation'' (newDate3 year 8 2)
                 Event F3 ''Offices/Conf Room'' s4;
          s6 = push_createEvent rnd ''BMC Challah Bake'' (newDate3 year 10 4)
                 Event F2 ''Sanctuary Hall'' s5;
          s7 = push_createEvent rnd ''BMC Gala'' (newDate3 year 4 12)
                 Event F6 ''Rooftop Ballroom'' s6;
          s8 = push_createEvent rnd ''Hebrew School Opening'' (newDate3 year 8 7)
                 Event F4 ''Classrooms'' s7;
          s9 = push_createEvent rnd ''Family Chanukah Party'' (newDate3 year 11 21)
                 Event F2 ''Sanctuary'' s8;
          s10 = push_createEvent rnd ''Rosh Hashana - Fabric Cleaning'' (newDate3 year 8 15)
                 Cleaning F2 ''Sanctuary'' s9;
          s11 = push_createEvent rnd ''Sukkah Build'' (newDate3 year 8 29)
                 Maintenance F1 ''Courtyard'' s10;
          s12 = push_createEvent rnd ''Pesach Chametz Deep Clean'' (newDate3 year 3 10)
                 Cleaning F6 ''Kitchen/All Floors'' s11
      in s12)"

text \<open>
  \<open>generateInitialData\<close>; \<open>now\<close> is the time value of \<open>new Date()\<close>.  \<open>startOfYear\<close> returns
  a new object, \<open>yearStart\<close>; \<open>let current = yearStart\<close> copies the reference.
\<close>

definition generateInitialData :: "(nat \<Rightarrow> string) \<Rightarrow> Date \<Rightarrow> Event list" where
  "generateInitialData rnd now =
     (let (yearStart, h0) = alloc (startOfYear now) emptyHeap;
          year = getFullYear (deref h0 yearStart);
          st0 = \<lparr>g_events = [], g_rand = 0, g_heap = h0\<rparr>;
          st1 = push_createEvent rnd ''Backflow Inspection'' (newDate3 year 0 15)
                  Maintenance F1 ''Garage/Main Line'' st0;
          st2 = push_createEvent rnd ''Backflow Inspection'' (newDate3 year 6 15)
                  Maintenance F1 ''Garage/Main Line'' st1;
          st3 = aromaElevatorLoop rnd year 0 st2;
          current = yearStart;
          st4 = chillerLoop rnd yearStart current 0 st3;
          st5 = greaseLoop rnd year [0, 3, 6, 9] st4;
          st6 = carpetLoop rnd year 0 st5;
          st7 = fixedEvents rnd year st6
      in g_events st7)"

section \<open>The calendar view\<close>

text \<open>
  \<open>CalendarView\<close>: the days of the grid, the callback of \<open>events.filter\<close> that computes
  \<open>filteredEvents\<close>, and the bucket \<open>dayEvents\<close> of a day.  \<open>filters.floor\<close> is truthy when
  it is set to a number other than 0.
\<close>

definition CalendarView_days :: "Date \<Rightarrow> Date list" where
  "CalendarView_days currentDate =
     (let monthStart = startOfMonth currentDate;
          monthEnd = endOfMonth monthStart;
          startDate = startOfWeek monthStart;
          endDate = endOfWeek monthEnd
      in eachDayOfInterval startDate endDate)"

definition filterCallback :: "FilterState \<Rightarrow> 'd CalendarEvent \<Rightarrow> bool" where
  "filterCallback filters e =
     (if \<not> showMaintenance filters \<and> e_category e = Maintenance then False
      else if \<not> showCleaning filters \<and> e_category e = Cleaning then False
      else if \<not> showEvents filters \<and> e_category e = Event then False
      else if (case f_floor filters of None \<Rightarrow> False
               | Some fl \<Rightarrow> floorNumber fl \<noteq> 0 \<and> e_floor e \<noteq> fl) then False
      else True)"

definition filteredEvents :: "'d CalendarEvent list \<Rightarrow> FilterState \<Rightarrow> 'd CalendarEvent list" where
  "filteredEvents events filters = filter (filterCallback filters) events"

definition dayEvents :: "Event list \<Rightarrow> FilterState \<Rightarrow> Date \<Rightarrow> Event list" where
  "dayEvents events filters day =
     filter (\<lambda>e. isSameDay (e_start e) day) (filteredEvents events filters)"

definition CalendarView_grid ::
  "Date \<Rightarrow> Event list \<Rightarrow> FilterState \<Rightarrow> (Date \<times> Event list) list" where
  "CalendarView_grid currentDate events filters =
     map (\<lambda>day. (day, dayEvents events filters day)) (CalendarView_days currentDate)"

section \<open>The state of \<open>App\<close> and its handlers\<close>

text \<open>
  The part of the state of \<open>App\<close> that the handlers below read and write.  A handler is
  a function from the state to the next state; the answer of the user to \<open>confirm\<close> is
  an argument.
\<close>

record AppState =
  events :: "Event list"
  requests :: "Request list"
  editingEvent :: "Event option"

definition initialState :: AppState where
  "initialState = \<lparr>events = [], requests = [], editingEvent = None\<rparr>"

text \<open>
  \<open>handleSubmitRequest\<close>: \<open>reqData\<close> is a request without id and status, given here as a
  request whose id and status are overwritten; \<open>ident\<close> is the random id.
\<close>

definition handleSubmitRequest :: "string \<Rightarrow> Request \<Rightarrow> AppState \<Rightarrow> AppState" where
  "handleSubmitRequest ident reqData st =
     (let newRequest = reqData\<lparr>r_id := ident, r_status := pending,
                               r_submittedBy := Some ''Guest User''\<rparr>
      in st\<lparr>requests := newRequest # requests st\<rparr>)"

definition handleApproveRequest :: "Request \<Rightarrow> AppState \<Rightarrow> AppState" where
  "handleApproveRequest req st =
     (let newEvent = \<lparr>e_id = r_id req, e_title = r_title req,
                       e_start = r_date req, e_end = r_date req,
                       e_category = r_category req, e_floor = r_floor req,
                       e_room = r_room req, e_description = Some (r_description req),
                       e_isRecurring = None\<rparr>
      in st\<lparr>events := events st @ [newEvent],
            requests := filter (\<lambda>r. r_id r \<noteq> r_id req) (requests st)\<rparr>)"

definition handleRejectRequest :: "bool \<Rightarrow> Request \<Rightarrow> AppState \<Rightarrow> AppState" where
  "handleRejectRequest confirm req st =
     (if confirm then st\<lparr>requests := filter (\<lambda>r. r_id r \<noteq> r_id req) (requests st)\<rparr>
      else st)"

definition handleUpdateEvent :: "Event \<Rightarrow> AppState \<Rightarrow> AppState" where
  "handleUpdateEvent updatedEvent st =
     st\<lparr>events := map (\<lambda>e. if e_id e = e_id updatedEvent then updatedEvent else e) (events st),
        editingEvent := None\<rparr>"

definition handleDeleteEvent :: "string \<Rightarrow> AppState \<Rightarrow> AppState" where
  "handleDeleteEvent eventId st =
     st\<lparr>events := filter (\<lambda>e. e_id e \<noteq> eventId) (events st), editingEvent := None\<rparr>"

text \<open>
  \<open>EditEventModal.handleSubmit\<close>.  The form holds the value of a required input of type
  \<open>date\<close>, a string \<open>yyyy-mm-dd\<close>; \<open>fd_date\<close> is the three numbers that
  \<open>split('-').map(Number)\<close> makes of it.  \<open>onSave\<close> is \<open>handleUpdateEvent\<close>.
\<close>

record EditFormData =
  fd_title :: string
  fd_date :: "int \<times> int \<times> int"
  fd_category :: EventCategory
  fd_floor :: Floor
  fd_room :: string
  fd_description :: string

definition EditEventModal_handleSubmit :: "Event \<Rightarrow> EditFormData \<Rightarrow> AppState \<Rightarrow> AppState" where
  "EditEventModal_handleSubmit event formData st =
     (let (y, m, d) = fd_date formData;
          start = newDate5 y (m - 1) d 9 0;
          en = Date_setHours start 10
      in handleUpdateEvent
           (event\<lparr>e_title := fd_title formData, e_start := start, e_end := en,
                  e_category := fd_category formData, e_floor := fd_floor formData,
                  e_room := fd_room formData,
                  e_description := Some (fd_description formData)\<rparr>) st)"

section \<open>The filter evaluator\<close>

text \<open>
  The show-flag that corresponds to a category, as the specification words the
  visibility rule; \<open>filterCallback\<close> above is the code.
\<close>

definition showFlag :: "FilterState \<Rightarrow> EventCategory \<Rightarrow> bool" where
  "showFlag filters c =
     (case c of Maintenance \<Rightarrow> showMaintenance filters
      | Cleaning \<Rightarrow> showCleaning filters
      | Event \<Rightarrow> showEvents filters)"

definition fixACEvent :: Event where
  "fixACEvent =
     \<lparr>e_id = ''k3j9x0q2a'', e_title = ''Fix AC'', e_start = newDate3 2025 2 10,
      e_end = newDate3 2025 2 10, e_category = Maintenance, e_floor = F3,
      e_room = ''Offices'', e_description = Some ''The AC drips'', e_isRecurring = None\<rparr>"

definition hiddenMaintenance :: FilterState where
  "hiddenMaintenance =
     \<lparr>showMaintenance = False, showCleaning = True, showEvents = True, f_floor = None\<rparr>"

lemma floorNumber_nonzero: "floorNumber fl \<noteq> 0"
  by (cases fl) simp_all

text \<open>
  C4.  An event is visible iff the show-flag of its category is true and the floor
  filter is unset or equal to the floor of the event.  In particular an event whose
  category flag is off is not visible whatever the floor filter is, and with the floor
  filter unset the visibility is the category flag alone.
\<close>

theorem filter_visible_iff:
  "(filterCallback f e \<longleftrightarrow>
      showFlag f (e_category e) \<and> (f_floor f = None \<or> f_floor f = Some (e_floor e)))
   \<and> (\<not> showFlag f (e_category e) \<longrightarrow> \<not> filterCallback f e)
   \<and> (f_floor f = None \<longrightarrow> filterCallback f e = showFlag f (e_category e))"
  by (cases "e_category e"; cases "f_floor f")
     (auto simp add: filterCallback_def showFlag_def floorNumber_nonzero)

theorem filter_visible_iff_witness:
  "\<not> showFlag hiddenMaintenance (e_category fixACEvent)
   \<and> f_floor hiddenMaintenance = None
   \<and> \<not> filterCallback hiddenMaintenance fixACEvent"
  using filter_visible_iff[of hiddenMaintenance fixACEvent]
  by (simp add: hiddenMaintenance_def fixACEvent_def showFlag_def)

section \<open>The request lifecycle\<close>

definition fixAC :: Request where
  "fixAC =
     \<lparr>r_id = ''k3j9x0q2a'', r_title = ''Fix AC'', r_date = newDate3 2025 2 10,
      r_category = Maintenance, r_floor = F3, r_room = ''Offices'',
      r_description = ''The AC drips'', r_status = pending,
      r_submittedBy = Some ''Guest User''\<rparr>"

definition otherRequest :: Request where
  "otherRequest =
     \<lparr>r_id = ''7hq2m5c1z'', r_title = ''Book the hall'', r_date = newDate3 2025 4 2,
      r_category = Event, r_floor = F2, r_room = ''Sanctuary Hall'',
      r_description = ''Bar mitzvah'', r_status = pending,
      r_submittedBy = Some ''Guest User''\<rparr>"

definition inboxState :: AppState where
  "inboxState = \<lparr>events = [], requests = [otherRequest, fixAC], editingEvent = None\<rparr>"

lemma date_2025_03_10:
  "getFullYear (newDate3 2025 2 10) = 2025"
  "getMonth (newDate3 2025 2 10) = 2"
  "getDate (newDate3 2025 2 10) = 10"
  by code_simp+

text \<open>
  C2.  Approving a request appends exactly one event to the event collection; the event
  carries the id, title, category, floor, room and description of the request, and its
  start and its end are the date of the request.  Approving the request "Fix AC" of
  2025-03-10, Maintenance, floor 3, room "Offices" yields an event on floor 3, in room
  "Offices", of category Maintenance, that starts on 2025-03-10.
\<close>

theorem approve_constructs_event:
  "(\<exists>e. events (handleApproveRequest r st) = events st @ [e]
        \<and> e_id e = r_id r \<and> e_title e = r_title r \<and> e_category e = r_category r
        \<and> e_floor e = r_floor r \<and> e_room e = r_room r
        \<and> e_description e = Some (r_description r)
        \<and> e_start e = r_date r \<and> e_end e = r_date r)
   \<and> (\<exists>e. events (handleApproveRequest fixAC st) = events st @ [e]
        \<and> e_floor e = F3 \<and> e_room e = ''Offices'' \<and> e_category e = Maintenance
        \<and> getFullYear (e_start e) = 2025 \<and> getMonth (e_start e) = 2
        \<and> getDate (e_start e) = 10)"
  by (simp add: handleApproveRequest_def fixAC_def date_2025_03_10)

text \<open>
  C3.  After the approval of a request no pending request has its id, and the event
  collection has exactly one new event, with that id.  After a confirmed rejection no
  pending request has its id and the event collection is unchanged.  A rejection whose
  confirmation is declined changes nothing.
\<close>

theorem request_lifecycle:
  "r_id r \<notin> r_id ` set (requests (handleApproveRequest r st))
   \<and> (\<exists>e. events (handleApproveRequest r st) = events st @ [e] \<and> e_id e = r_id r)
   \<and> length (filter (\<lambda>e. e_id e = r_id r) (events (handleApproveRequest r st)))
       = Suc (length (filter (\<lambda>e. e_id e = r_id r) (events st)))
   \<and> r_id r \<notin> r_id ` set (requests (handleRejectRequest True r st))
   \<and> events (handleRejectRequest True r st) = events st
   \<and> handleRejectRequest False r st = st"
  by (auto simp add: handleApproveRequest_def handleRejectRequest_def)

theorem request_lifecycle_witness:
  "fixAC \<in> set (requests inboxState)
   \<and> requests (handleApproveRequest fixAC inboxState) = [otherRequest]
   \<and> r_id fixAC \<notin> r_id ` set (requests (handleApproveRequest fixAC inboxState))
   \<and> requests (handleRejectRequest True fixAC inboxState) = [otherRequest]
   \<and> events (handleRejectRequest True fixAC inboxState) = events inboxState"
  using request_lifecycle[of fixAC inboxState]
  by (simp add: inboxState_def fixAC_def otherRequest_def handleApproveRequest_def
        handleRejectRequest_def)

section \<open>Updating an event\<close>

definition editedFixAC :: Event where
  "editedFixAC = fixACEvent\<lparr>e_title := ''Fix AC (3rd floor)'', e_floor := F4\<rparr>"

definition bookedHall :: Event where
  "bookedHall =
     \<lparr>e_id = ''7hq2m5c1z'', e_title = ''Book the hall'', e_start = newDate3 2025 4 2,
      e_end = newDate3 2025 4 2, e_category = Event, e_floor = F2,
      e_room = ''Sanctuary Hall'', e_description = Some ''Bar mitzvah'',
      e_isRecurring = None\<rparr>"

definition twoEvents :: AppState where
  "twoEvents =
     \<lparr>events = [bookedHall, fixACEvent], requests = [], editingEvent = Some fixACEvent\<rparr>"

text \<open>
  C10.  The update of an event keeps the length of the collection and, position by
  position, puts the updated event where the id of the event equals its id and keeps
  every other event.
\<close>

theorem update_replaces_by_id:
  "length (events (handleUpdateEvent u st)) = length (events st)
   \<and> (\<forall>i < length (events st).
        events (handleUpdateEvent u st) ! i
          = (if e_id (events st ! i) = e_id u then u else events st ! i))"
  by (simp add: handleUpdateEvent_def)

theorem update_replaces_by_id_witness:
  "(1::nat) < length (events twoEvents)
   \<and> e_id (events twoEvents ! 1) = e_id editedFixAC
   \<and> events (handleUpdateEvent editedFixAC twoEvents) ! 1 = editedFixAC
   \<and> events (handleUpdateEvent editedFixAC twoEvents) = [bookedHall, editedFixAC]"
  using update_replaces_by_id[of editedFixAC twoEvents]
  by (simp add: twoEvents_def editedFixAC_def fixACEvent_def bookedHall_def
        handleUpdateEvent_def)

section \<open>The grid of days\<close>

text \<open>
  The number of days of a month (0 to 11) of a year, by which the last day of a month
  is stated.
\<close>

definition DaysInMonth :: "int \<Rightarrow> int \<Rightarrow> int" where
  "DaysInMonth y m =
     (if m = 1 then (if DaysInYear y = 366 then 29 else 28)
      else if m = 3 \<or> m = 5 \<or> m = 8 \<or> m = 10 then 30
      else 31)"

lemma month_disj:
  "0 \<le> m \<Longrightarrow> m \<le> (11::int) \<Longrightarrow>
     m = 0 \<or> m = 1 \<or> m = 2 \<or> m = 3 \<or> m = 4 \<or> m = 5 \<or> m = 6 \<or> m = 7 \<or> m = 8 \<or> m = 9 \<or> m = 10 \<or> m = 11"
  by presburger

lemma MakeDay_in_range:
  assumes "0 \<le> m" "m \<le> 11"
  shows "MakeDay y m dt = DayFromYear y + MonthStartDay m (if DaysInYear y = 366 then 1 else 0) + dt - 1"
proof -
  have "m div 12 = 0" "m mod 12 = m" using assms by simp_all
  then show ?thesis unfolding MakeDay_def Let_def by simp
qed


lemma MonthStartDay_bounds:
  assumes m: "0 \<le> m" "m \<le> 11" and l: "l = 0 \<or> l = 1"
  shows "0 \<le> MonthStartDay m l" "MonthStartDay m l + (if m = 1 then 28 + l else if m = 3 \<or> m = 5 \<or> m = 8 \<or> m = 10 then 30 else 31) \<le> 365 + l"
  using month_disj[OF m] l by (auto simp add: MonthStartDay_def)

lemma fields_from_day:
  assumes m: "0 \<le> m" "m \<le> 11" and dt: "1 \<le> dt" "dt \<le> DaysInMonth y m"
    and t: "Day t = MakeDay y m dt"
  shows "YearFromTime t = y" "MonthFromTime t = m" "DateFromTime t = dt"
proof -
  define l :: int where "l = (if DaysInYear y = 366 then 1 else 0)"
  have l: "l = 0 \<or> l = 1" by (simp add: l_def)
  have ly': "DaysInYear y = 365 + l"
    using DaysInYear_bounds[of y] by (simp add: l_def DaysInYear_def)
  have dim: "DaysInMonth y m = (if m = 1 then 28 + l else if m = 3 \<or> m = 5 \<or> m = 8 \<or> m = 10 then 30 else 31)"
    by (simp add: DaysInMonth_def l_def)
  have d: "Day t = DayFromYear y + MonthStartDay m l + dt - 1"
    using t MakeDay_in_range[OF m] by (simp add: l_def)
  have w: "0 \<le> MonthStartDay m l + dt - 1" "MonthStartDay m l + dt - 1 < DaysInYear y"
    using MonthStartDay_bounds[OF m l] dt unfolding dim ly' by linarith+
  show y: "YearFromTime t = y"
    unfolding YearFromTime_def
    by (rule YearFromDay_unique) (use d w DayFromYear_step[of y] in simp_all)
  have wy: "DayWithinYear t = MonthStartDay m l + dt - 1"
    using d y by (simp add: DayWithinYear_def)
  have ly: "InLeapYear t = l"
    using y by (simp add: InLeapYear_def l_def)
  show mm: "MonthFromTime t = m"
    using month_disj[OF m] dt l unfolding dim
    by (auto simp add: MonthFromTime_def wy ly MonthStartDay_def)
  show "DateFromTime t = dt"
    using month_disj[OF m]
    by (auto simp add: DateFromTime_def mm wy ly MonthStartDay_def)
qed

lemma DateFromTime_range:
  "1 \<le> DateFromTime t" "DateFromTime t \<le> DaysInMonth (YearFromTime t) (MonthFromTime t)"
proof -
  define l where "l = InLeapYear t"
  have l: "l = 0 \<or> l = 1" by (simp add: l_def InLeapYear_def)
  have b: "0 \<le> DayWithinYear t" "DayWithinYear t < 365 + l"
    using DayWithinYear_bounds[of t] DaysInYear_bounds[of "YearFromTime t"]
    by (auto simp add: l_def InLeapYear_def)
  have dim: "DaysInMonth (YearFromTime t) m = (if m = 1 then 28 + l else if m = 3 \<or> m = 5 \<or> m = 8 \<or> m = 10 then 30 else 31)" for m
    by (simp add: DaysInMonth_def l_def InLeapYear_def)
  show "1 \<le> DateFromTime t"
    using b l by (auto simp add: DateFromTime_def MonthFromTime_def Let_def l_def[symmetric])
  show "DateFromTime t \<le> DaysInMonth (YearFromTime t) (MonthFromTime t)"
    unfolding dim using b l
    by (auto simp add: DateFromTime_def MonthFromTime_def Let_def l_def[symmetric])
qed


lemma Day_mult: "Day (d * msPerDay) = d" "TimeWithinDay (d * msPerDay) = 0"
  using msPerDay_pos by (simp_all add: Day_def TimeWithinDay_def)

lemma Date_setHours4_MakeDate:
  "0 \<le> tm \<Longrightarrow> tm < msPerDay \<Longrightarrow>
     Date_setHours4 (MakeDate d tm) h m s milli = MakeDate d (MakeTime h m s milli)"
  by (simp add: Date_setHours4_def Day_MakeDate)

lemma Date_setDate_eq: "Date_setDate t dt = t + (dt - getDate t) * msPerDay"
  using Date_setDate_shift[of t "dt - getDate t"] by simp

lemma startOfMonth_eq: "startOfMonth t = (Day t + 1 - getDate t) * msPerDay"
  using Day_shift[of t "1 - getDate t"]
  by (simp add: startOfMonth_def Date_setDate_eq Date_setHours4_zero)

lemma startOfMonth_fields:
  "getFullYear (startOfMonth t) = getFullYear t"
  "getMonth (startOfMonth t) = getMonth t"
  "getDate (startOfMonth t) = 1"
proof -
  have d: "Day (startOfMonth t) = MakeDay (YearFromTime t) (MonthFromTime t) 1"
    using MakeDay_fields[of t "1 - DateFromTime t"]
    by (simp add: startOfMonth_eq Day_mult getDate_def)
  note f = fields_from_day[OF MonthFromTime_range[of t] _ _ d]
  have one: "(1::int) \<le> 1" by simp
  have le: "1 \<le> DaysInMonth (YearFromTime t) (MonthFromTime t)"
    by (simp add: DaysInMonth_def)
  show "getFullYear (startOfMonth t) = getFullYear t"
    "getMonth (startOfMonth t) = getMonth t"
    "getDate (startOfMonth t) = 1"
    using f[OF one le] by (simp_all add: getFullYear_def getMonth_def getDate_def)
qed

lemma MakeDay_next_month:
  assumes m: "0 \<le> m" "m \<le> 11"
  shows "MakeDay y (m + 1) 0 = MakeDay y m (DaysInMonth y m)"
proof (cases "m = 11")
  case True
  have "MakeDay y 12 0 = DayFromYear (y + 1) - 1"
    by (simp add: MakeDay_def MonthStartDay_def)
  then show ?thesis
    using True DaysInYear_bounds[of y]
    by (simp add: MakeDay_in_range DayFromYear_step MonthStartDay_def DaysInMonth_def DaysInYear_def)
next
  case False
  then have m': "0 \<le> m + 1" "m + 1 \<le> 11" using m by simp_all
  show ?thesis
    unfolding MakeDay_in_range[OF m] MakeDay_in_range[OF m']
    using month_disj[OF m] False
    by (auto simp add: MonthStartDay_def DaysInMonth_def)
qed

lemma endOfDay_time: "MakeTime 23 59 59 999 = msPerDay - 1"
  by (simp add: MakeTime_def msPerDay_def msPerHour_def msPerMinute_def msPerSecond_def)

lemma endOfMonth_eq:
  "endOfMonth t = MakeDate (MakeDay (YearFromTime t) (MonthFromTime t)
                     (DaysInMonth (YearFromTime t) (MonthFromTime t))) (msPerDay - 1)"
  using TimeWithinDay_range[of t] msPerDay_pos
  by (simp add: endOfMonth_def Let_def Date_setFullYear_def getMonth_def getFullYear_def
      Date_setHours4_MakeDate MakeDay_next_month[OF MonthFromTime_range] endOfDay_time)

lemma Day_endOfMonth:
  "Day (endOfMonth t) = Day t + (DaysInMonth (YearFromTime t) (MonthFromTime t) - getDate t)"
  using MakeDay_fields[of t "DaysInMonth (YearFromTime t) (MonthFromTime t) - getDate t"] msPerDay_pos
  by (simp add: endOfMonth_eq Day_MakeDate getDate_def)

lemma endOfMonth_fields:
  "getFullYear (endOfMonth t) = getFullYear t"
  "getMonth (endOfMonth t) = getMonth t"
  "getDate (endOfMonth t) = DaysInMonth (getFullYear t) (getMonth t)"
proof -
  have d: "Day (endOfMonth t) = MakeDay (YearFromTime t) (MonthFromTime t)
             (DaysInMonth (YearFromTime t) (MonthFromTime t))"
    using msPerDay_pos by (simp add: endOfMonth_eq Day_MakeDate)
  have one: "1 \<le> DaysInMonth (YearFromTime t) (MonthFromTime t)"
    by (simp add: DaysInMonth_def)
  note f = fields_from_day[OF MonthFromTime_range[of t] one _ d]
  show "getFullYear (endOfMonth t) = getFullYear t"
    "getMonth (endOfMonth t) = getMonth t"
    "getDate (endOfMonth t) = DaysInMonth (getFullYear t) (getMonth t)"
    using f by (simp_all add: getFullYear_def getMonth_def getDate_def)
qed

lemma shift_as_MakeDate: "t + k * msPerDay = MakeDate (Day t + k) (TimeWithinDay t)"
proof -
  have "MakeDate (Day t + k) (TimeWithinDay t) = MakeDate (Day t) (TimeWithinDay t) + k * msPerDay"
    by (simp add: MakeDate_def algebra_simps)
  then show ?thesis by (simp add: MakeDate_Day)
qed

lemma startOfWeek_eq: "startOfWeek t = (Day t - getDay t) * msPerDay"
proof -
  have d: "(if getDay t < 0 then 7 else 0) + getDay t - 0 = getDay t"
    using WeekDay_range[of t] by (simp add: getDay_def)
  have s: "Date_setDate t (getDate t - getDay t) = t + (- getDay t) * msPerDay"
    using Date_setDate_shift[of t "- getDay t"] by simp
  have "Day (t + (- getDay t) * msPerDay) = Day t - getDay t"
    unfolding Day_shift by simp
  then show ?thesis
    unfolding startOfWeek_def Let_def weekStartsOn_def d s Date_setHours4_zero by simp
qed

lemma endOfWeek_eq: "endOfWeek t = MakeDate (Day t + 6 - getDay t) (msPerDay - 1)"
proof -
  have d: "(if getDay t < 0 then - 7 else 0) + 6 - (getDay t - 0) = 6 - getDay t"
    using WeekDay_range[of t] by (simp add: getDay_def)
  have s: "Date_setDate t (getDate t + (6 - getDay t)) = MakeDate (Day t + (6 - getDay t)) (TimeWithinDay t)"
    unfolding Date_setDate_shift shift_as_MakeDate by simp
  have "Date_setHours4 (MakeDate (Day t + (6 - getDay t)) (TimeWithinDay t)) 23 59 59 999
          = MakeDate (Day t + (6 - getDay t)) (msPerDay - 1)"
    using TimeWithinDay_range[of t] by (simp add: Date_setHours4_MakeDate endOfDay_time)
  then show ?thesis
    unfolding endOfWeek_def Let_def weekStartsOn_def d s by (simp add: algebra_simps)
qed

lemma eachDayLoop_eq:
  assumes "Day endTime = b"
  shows "a \<le> b + 1 \<Longrightarrow> eachDayLoop (a * msPerDay) endTime = map (\<lambda>k. k * msPerDay) [a..b]"
proof (induction "nat (b + 1 - a)" arbitrary: a)
  case 0
  then have a: "a = b + 1" by simp
  have "endTime < (b + 1) * msPerDay" using Day_upper[of endTime] assms by simp
  then show ?case using a by (subst eachDayLoop.simps) simp
next
  case (Suc n)
  then have le: "a \<le> b" by simp
  have "b * msPerDay \<le> endTime" using Day_lower[of endTime] assms by simp
  moreover have "a * msPerDay \<le> b * msPerDay" using le msPerDay_pos by simp
  ultimately have c: "a * msPerDay \<le> endTime" by simp
  have n: "n = nat (b + 1 - (a + 1))" using Suc(2) by simp
  have ih: "eachDayLoop ((a + 1) * msPerDay) endTime = map (\<lambda>k. k * msPerDay) [a + 1..b]"
    using Suc(1)[OF n] le by simp
  have u: "[a..b] = a # [a + 1..b]" using le by (simp add: upto_rec1)
  show ?case
    by (subst eachDayLoop.simps) (simp add: c next_day_start Day_mult ih u)
qed


lemma MakeDay_date: "MakeDay y m (dt + k) = MakeDay y m dt + k"
  by (simp add: MakeDay_def Let_def)

lemma MakeDay_month_12: "MakeDay y 12 dt = MakeDay (y + 1) 0 dt"
  by (simp add: MakeDay_def)

lemma day_after_endOfMonth: "getDate (endOfMonth t + 1) = 1"
proof -
  define y where "y = YearFromTime t"
  define m where "m = MonthFromTime t"
  note mr = MonthFromTime_range[of t, folded m_def]
  have "endOfMonth t + 1 = (MakeDay y m (DaysInMonth y m) + 1) * msPerDay"
    by (simp add: endOfMonth_eq MakeDate_def y_def m_def algebra_simps)
  then have "Day (endOfMonth t + 1) = MakeDay y m (DaysInMonth y m) + 1"
    by (simp add: Day_mult)
  also have "\<dots> = MakeDay y (m + 1) 0 + 1"
    by (simp add: MakeDay_next_month[OF mr])
  also have "\<dots> = MakeDay y (m + 1) 1"
    using MakeDay_date[of y "m + 1" 0 1] by simp
  finally have d: "Day (endOfMonth t + 1) = MakeDay y (m + 1) 1" .
  have one: "(1::int) \<le> 1" by simp
  show ?thesis
  proof (cases "m = 11")
    case True
    then have d': "Day (endOfMonth t + 1) = MakeDay (y + 1) 0 1"
      using d by (simp add: MakeDay_month_12)
    have r: "(0::int) \<le> 0" "(0::int) \<le> 11" "1 \<le> DaysInMonth (y + 1) 0"
      by (simp_all add: DaysInMonth_def)
    show ?thesis
      using fields_from_day(3)[OF r(1) r(2) one r(3) d'] by (simp add: getDate_def)
  next
    case False
    then have r: "0 \<le> m + 1" "m + 1 \<le> 11" "1 \<le> DaysInMonth y (m + 1)"
      using mr by (simp_all add: DaysInMonth_def)
    show ?thesis
      using fields_from_day(3)[OF r(1) r(2) one r(3) d] by (simp add: getDate_def)
  qed
qed

lemma startOfMonth_le_endOfMonth: "Day (startOfMonth t) \<le> Day (endOfMonth (startOfMonth t))"
  unfolding Day_endOfMonth[of "startOfMonth t"]
  by (simp add: startOfMonth_fields DaysInMonth_def)

lemma week_span:
  fixes p q :: int
  assumes "p \<le> q"
  shows "p - (p + 4) mod 7 \<le> q + 6 - (q + 4) mod 7"
    and "\<exists>n. q + 6 - (q + 4) mod 7 + 1 - (p - (p + 4) mod 7) = 7 * n \<and> 0 < n"
proof -
  define a where "a = (p + 4) div 7"
  define b where "b = (q + 4) div 7"
  define pm where "pm = (p + 4) mod 7"
  define qm where "qm = (q + 4) mod 7"
  have pa: "p + 4 - pm = 7 * a" unfolding a_def pm_def by (simp add: minus_mod_eq_mult_div)
  have qb: "q + 4 - qm = 7 * b" unfolding b_def qm_def by (simp add: minus_mod_eq_mult_div)
  have ab: "a \<le> b" unfolding a_def b_def using assms by (simp add: zdiv_mono1)
  have 1: "p - pm \<le> q + 6 - qm" using pa qb ab by linarith
  have 2: "q + 6 - qm + 1 - (p - pm) = 7 * (b - a + 1)"
  proof -
    have "pm = p + 4 - 7 * a" using pa by simp
    moreover have "qm = q + 4 - 7 * b" using qb by simp
    ultimately show ?thesis by simp
  qed
  show "p - (p + 4) mod 7 \<le> q + 6 - (q + 4) mod 7" using 1 by (simp add: pm_def qm_def)
  show "\<exists>n. q + 6 - (q + 4) mod 7 + 1 - (p - (p + 4) mod 7) = 7 * n \<and> 0 < n"
    using 2 ab unfolding pm_def qm_def by (intro exI[of _ "b - a + 1"]) simp
qed

lemma CalendarView_days_eq:
  "CalendarView_days cur =
     map (\<lambda>k. k * msPerDay)
       [Day (startOfMonth cur) - getDay (startOfMonth cur) ..
        Day (endOfMonth (startOfMonth cur)) + 6 - getDay (endOfMonth (startOfMonth cur))]"
proof -
  define ms where "ms = startOfMonth cur"
  define me where "me = endOfMonth ms"
  define a where "a = Day ms - getDay ms"
  define b where "b = Day me + 6 - getDay me"
  have ab: "a \<le> b"
    using week_span(1)[OF startOfMonth_le_endOfMonth[of cur]]
    by (simp add: a_def b_def ms_def me_def getDay_def WeekDay_def)
  have lo: "a * msPerDay \<le> b * msPerDay" using ab msPerDay_pos by simp
  have nr: "\<not> MakeDate b (msPerDay - 1) < a * msPerDay"
    using lo msPerDay_pos unfolding MakeDate_def by linarith
  have de: "Day (MakeDate b (msPerDay - 1)) = b"
    using msPerDay_pos by (simp add: Day_MakeDate)
  have "eachDayOfInterval (startOfWeek ms) (endOfWeek me) = map (\<lambda>k. k * msPerDay) [a..b]"
    unfolding eachDayOfInterval_def Let_def startOfWeek_eq endOfWeek_eq
      a_def[symmetric] b_def[symmetric]
    using nr ab by (simp add: Date_setHours4_zero Day_mult eachDayLoop_eq[OF de])
  then show ?thesis
    by (simp add: CalendarView_days_def Let_def ms_def me_def a_def b_def)
qed

text \<open>
  C5.  For every reference date the days of the grid are a non-empty sequence whose
  length is a multiple of 7; the first day is a Sunday, the day on which the week
  starts, on or before the first day of the month of the reference date; the last day is
  a Saturday, the day on which the week ends, on or after the last day of that month.
  \<open>monthStart\<close> is midnight of day 1 of the month and the year of the reference date;
  \<open>monthEnd\<close> falls in that month, on the day whose number is the number of days of the
  month, and the millisecond after it is on day 1 of a month.
\<close>

theorem grid_days_week_aligned:
  "(let days = CalendarView_days currentDate;
        monthStart = startOfMonth currentDate;
        monthEnd = endOfMonth monthStart
    in days \<noteq> [] \<and> length days mod 7 = 0
       \<and> getDay (hd days) = weekStartsOn \<and> hd days \<le> monthStart
       \<and> getDay (last days) = weekStartsOn + 6 \<and> Day monthEnd \<le> Day (last days)
       \<and> getFullYear monthStart = getFullYear currentDate
       \<and> getMonth monthStart = getMonth currentDate
       \<and> getDate monthStart = 1 \<and> TimeWithinDay monthStart = 0
       \<and> getFullYear monthEnd = getFullYear currentDate
       \<and> getMonth monthEnd = getMonth currentDate
       \<and> getDate monthEnd = DaysInMonth (getFullYear currentDate) (getMonth currentDate)
       \<and> getDate (monthEnd + 1) = 1)"
proof -
  define ms where "ms = startOfMonth currentDate"
  define me where "me = endOfMonth ms"
  define a where "a = Day ms - getDay ms"
  define b where "b = Day me + 6 - getDay me"
  have days: "CalendarView_days currentDate = map (\<lambda>k. k * msPerDay) [a..b]"
    by (simp add: CalendarView_days_eq a_def b_def ms_def me_def)
  have le: "Day ms \<le> Day me"
    using startOfMonth_le_endOfMonth[of currentDate] by (simp add: ms_def me_def)
  have ab: "a \<le> b"
    using week_span(1)[OF le] by (simp add: a_def b_def getDay_def WeekDay_def)
  obtain n where n: "b + 1 - a = 7 * n" "0 < n"
    using week_span(2)[OF le] by (auto simp add: a_def b_def getDay_def WeekDay_def)
  have ne: "[a..b] \<noteq> []" using ab by simp
  have len: "length [a..b] = nat (7 * n)" using n by simp
  have "nat (7 * n) = 7 * nat n" using n(2) by (simp add: nat_mult_distrib)
  then have l7: "length [a..b] mod 7 = 0" using len by simp
  have hd: "hd [a..b] = a" using ab by (simp add: upto_rec1)
  have last: "last [a..b] = b" using ab by (simp add: upto_rec2)
  have wa: "(a + 4) mod 7 = 0"
    by (simp add: a_def getDay_def WeekDay_def algebra_simps mod_diff_right_eq)
  have wb: "(b + 4) mod 7 = 6"
  proof -
    have "b + 4 = 6 + (Day me + 4 - (Day me + 4) mod 7)"
      by (simp add: b_def getDay_def WeekDay_def)
    also have "\<dots> = 6 + 7 * ((Day me + 4) div 7)" by (simp add: minus_mod_eq_mult_div)
    finally show ?thesis by simp
  qed
  have a_le: "a \<le> Day ms" using WeekDay_range[of ms] by (simp add: a_def getDay_def)
  have b_ge: "Day me \<le> b" using WeekDay_range[of me] by (simp add: b_def getDay_def)
  have ms_eq: "ms = Day ms * msPerDay"
    by (simp add: ms_def startOfMonth_eq Day_mult)
  have "a * msPerDay \<le> Day ms * msPerDay" using a_le msPerDay_pos by simp
  then have hd_le: "a * msPerDay \<le> ms" using ms_eq by simp
  have tw: "TimeWithinDay ms = 0" by (subst ms_eq) (simp add: Day_mult)
  show ?thesis
    unfolding Let_def days ms_def[symmetric] me_def[symmetric]
    using ne l7 hd last wa wb hd_le b_ge tw
      startOfMonth_fields[of currentDate, folded ms_def] endOfMonth_fields[of ms, folded me_def]
      day_after_endOfMonth[of ms, folded me_def]
    by (simp add: hd_map last_map getDay_def WeekDay_def Day_mult weekStartsOn_def)
qed

lemma isSameDay_iff: "isSameDay a b \<longleftrightarrow> Day a = Day b"
  using msPerDay_pos by (simp add: isSameDay_def startOfDay_eq)

text \<open>
  C6.  The bucket of a day of the grid is the sequence of the events of the collection
  that pass the filter and whose start falls on that day, whatever its time of day, in
  the order of the collection: it is the collection filtered by that condition, hence a
  subsequence of it.
\<close>

theorem day_bucket_exact:
  "CalendarView_grid currentDate evs f =
     map (\<lambda>d. (d, filter (\<lambda>e. filterCallback f e \<and> Day (e_start e) = Day d) evs))
       (CalendarView_days currentDate)
   \<and> dayEvents evs f d = filter (\<lambda>e. filterCallback f e \<and> Day (e_start e) = Day d) evs
   \<and> set (dayEvents evs f d) = {e \<in> set evs. filterCallback f e \<and> Day (e_start e) = Day d}
   \<and> subseq (dayEvents evs f d) evs"
proof -
  have b: "dayEvents evs f d = filter (\<lambda>e. filterCallback f e \<and> Day (e_start e) = Day d) evs" for d
    by (simp add: dayEvents_def filteredEvents_def isSameDay_iff conj_commute)
  show ?thesis
    unfolding CalendarView_grid_def b by auto
qed

section \<open>Hours, minutes and seconds\<close>

lemma MakeTime_range:
  assumes "0 \<le> h" "h < 24" "0 \<le> m" "m < 60" "0 \<le> s" "s < 60" "0 \<le> u" "u < 1000"
  shows "0 \<le> MakeTime h m s u" "MakeTime h m s u < msPerDay"
  using assms
  by (simp_all add: MakeTime_def msPerDay_def msPerHour_def msPerMinute_def msPerSecond_def)

lemma time_fields:
  assumes "0 \<le> h" "h < 24" "0 \<le> m" "m < 60" "0 \<le> s" "s < 60" "0 \<le> u" "u < 1000"
  shows "Day (MakeDate d (MakeTime h m s u)) = d"
    and "HourFromTime (MakeDate d (MakeTime h m s u)) = h"
    and "MinFromTime (MakeDate d (MakeTime h m s u)) = m"
    and "SecFromTime (MakeDate d (MakeTime h m s u)) = s"
    and "msFromTime (MakeDate d (MakeTime h m s u)) = u"
proof -
  let ?t = "MakeDate d (MakeTime h m s u)"
  show "Day ?t = d" using MakeTime_range[OF assms] by (rule Day_MakeDate)
  have eh: "?t = 3600000 * (d * 24 + h) + (m * 60000 + s * 1000 + u)"
    by (simp add: MakeDate_def MakeTime_def msPerDay_def msPerHour_def msPerMinute_def msPerSecond_def)
  have "?t div 3600000 = d * 24 + h"
    by (rule int_div_pos_eq[OF eh]) (use assms in simp_all)
  moreover have "(d * 24 + h) mod 24 = h"
    by (rule int_mod_pos_eq[of _ _ d]) (use assms in simp_all)
  ultimately show "HourFromTime ?t = h" by (simp add: HourFromTime_def msPerHour_def)
  have em: "?t = 60000 * (d * 1440 + h * 60 + m) + (s * 1000 + u)"
    by (simp add: MakeDate_def MakeTime_def msPerDay_def msPerHour_def msPerMinute_def msPerSecond_def)
  have "?t div 60000 = d * 1440 + h * 60 + m"
    by (rule int_div_pos_eq[OF em]) (use assms in simp_all)
  moreover have "(d * 1440 + h * 60 + m) mod 60 = m"
    by (rule int_mod_pos_eq[of _ _ "d * 24 + h"]) (use assms in simp_all)
  ultimately show "MinFromTime ?t = m" by (simp add: MinFromTime_def msPerMinute_def)
  have es: "?t = 1000 * (d * 86400 + h * 3600 + m * 60 + s) + u"
    by (simp add: MakeDate_def MakeTime_def msPerDay_def msPerHour_def msPerMinute_def msPerSecond_def)
  have "?t div 1000 = d * 86400 + h * 3600 + m * 60 + s"
    by (rule int_div_pos_eq[OF es]) (use assms in simp_all)
  moreover have "(d * 86400 + h * 3600 + m * 60 + s) mod 60 = s"
    by (rule int_mod_pos_eq[of _ _ "d * 1440 + h * 60 + m"]) (use assms in simp_all)
  ultimately show "SecFromTime ?t = s" by (simp add: SecFromTime_def msPerSecond_def)
  show "msFromTime ?t = u"
    unfolding msFromTime_def msPerSecond_def
    by (rule int_mod_pos_eq[OF es]) (use assms in simp_all)
qed

lemma field_ranges:
  "0 \<le> MinFromTime t" "MinFromTime t < 60" "0 \<le> SecFromTime t" "SecFromTime t < 60"
  "0 \<le> msFromTime t" "msFromTime t < 1000"
  by (simp_all add: MinFromTime_def SecFromTime_def msFromTime_def msPerSecond_def)

lemma createEvent_times:
  "e_start (fst (createEvent rnd k title date category fl room 1))
     = MakeDate (Day date) (MakeTime 9 0 (SecFromTime date) (msFromTime date))"
  "e_end (fst (createEvent rnd k title date category fl room 1))
     = MakeDate (Day date) (MakeTime 10 0 (SecFromTime date) (msFromTime date))"
proof -
  note r = field_ranges[of date]
  have n9: "(0::int) \<le> 9" "(9::int) < 24" "(0::int) \<le> 0" "(0::int) < 60" by simp_all
  note f1 = time_fields[OF n9(1) n9(2) r(1) r(2) r(3) r(4) r(5) r(6), of "Day date"]
  have t1: "setHours date 9 = MakeDate (Day date) (MakeTime 9 (MinFromTime date) (SecFromTime date) (msFromTime date))"
    by (simp add: setHours_def Date_setHours_def)
  have st: "setMinutes (setHours date 9) 0 = MakeDate (Day date) (MakeTime 9 0 (SecFromTime date) (msFromTime date))"
    unfolding t1 setMinutes_def Date_setMinutes_def f1 by simp
  note f2 = time_fields[OF n9(1) n9(2) n9(3) n9(4) r(3) r(4) r(5) r(6), of "Day date"]
  have "setHours (MakeDate (Day date) (MakeTime 9 0 (SecFromTime date) (msFromTime date))) (9 + 1)
          = MakeDate (Day date) (MakeTime 10 0 (SecFromTime date) (msFromTime date))"
    unfolding setHours_def Date_setHours_def f2 by simp
  then have en: "setHours (setMinutes (setHours date 9) 0) (9 + 1)
          = MakeDate (Day date) (MakeTime 10 0 (SecFromTime date) (msFromTime date))"
    by (simp only: st)
  show "e_start (fst (createEvent rnd k title date category fl room 1))
     = MakeDate (Day date) (MakeTime 9 0 (SecFromTime date) (msFromTime date))"
    using st by (simp add: createEvent_def Let_def generateId_def)
  show "e_end (fst (createEvent rnd k title date category fl room 1))
     = MakeDate (Day date) (MakeTime 10 0 (SecFromTime date) (msFromTime date))"
    using en by (simp add: createEvent_def Let_def generateId_def)
qed

lemma createEvent_valid:
  "e_start (fst (createEvent rnd k title date category fl room 1))
     \<le> e_end (fst (createEvent rnd k title date category fl room 1))"
  unfolding createEvent_times by (simp add: MakeDate_def MakeTime_def msPerHour_def)

lemma edit_times:
  "Date_setHours (newDate5 y m d 9 0) 10 = MakeDate (MakeDay (fullYear y) m d) (MakeTime 10 0 0 0)"
proof -
  have n: "(0::int) \<le> 9" "(9::int) < 24" "(0::int) \<le> 0" "(0::int) < 60" "(0::int) < 1000" by simp_all
  note f = time_fields[OF n(1) n(2) n(3) n(4) n(3) n(4) n(3) n(5), of "MakeDay (fullYear y) m d"]
  show ?thesis unfolding newDate5_def Date_setHours_def f by simp
qed

section \<open>What the seed generator produces\<close>

text \<open>
  The generator pushes the results of \<open>createEvent\<close> one after the other, each with the
  next random id.  \<open>planned rnd k ps\<close> is that sequence for a list \<open>ps\<close> of the arguments of
  \<open>createEvent\<close>, and \<open>seedPlan now\<close> is the list of arguments that \<open>generateInitialData\<close>
  goes through: a closed form of the loops, proved equal to the generator below.
  \<open>mondayOf v\<close> is the time value that \<open>current.setDate(diff)\<close> leaves in the object.
\<close>

type_synonym EventSpec = "string \<times> Date \<times> EventCategory \<times> Floor \<times> string"

fun planned :: "(nat \<Rightarrow> string) \<Rightarrow> nat \<Rightarrow> EventSpec list \<Rightarrow> Event list" where
  "planned rnd k [] = []"
| "planned rnd k ((title, date, category, fl, room) # ps) =
     fst (createEvent rnd k title date category fl room 1) # planned rnd (Suc k) ps"

definition mondayOf :: "Date \<Rightarrow> Date" where
  "mondayOf v = Date_setDate v (getDate v - getDay v + (if getDay v = 0 then - 6 else 1))"

definition aromaElevatorPlan :: "int \<Rightarrow> int \<Rightarrow> EventSpec list" where
  "aromaElevatorPlan year i =
     concat (map (\<lambda>j. [(''Aroma System Check'', newDate3 year j 1, Maintenance, F2, ''Lobby/Sanctuary''),
                        (''Elevator Maintenance (Eastern)'', newDate3 year j 5, Maintenance, F1, ''All Floors'')])
               [i..11])"

definition chillerPlan :: "Date \<Rightarrow> int \<Rightarrow> EventSpec list" where
  "chillerPlan v i =
     map (\<lambda>j. (''Chiller Inspection'', addWeeks (mondayOf v) j, Maintenance, F6, ''Rooftop'')) [i..51]"

definition greasePlan :: "int \<Rightarrow> int list \<Rightarrow> EventSpec list" where
  "greasePlan year ms =
     map (\<lambda>m. (''Grease Tank/Hood Clean (Yanky)'', newDate3 year m 10, Maintenance, F6, ''Kitchen'')) ms"

definition carpetPlan :: "int \<Rightarrow> int \<Rightarrow> EventSpec list" where
  "carpetPlan year i =
     map (\<lambda>j. (''Carpet Deep Clean'', newDate3 year j 15, Cleaning, F2, ''Sanctuary'')) [i..11]"

definition fixedPlan :: "int \<Rightarrow> EventSpec list" where
  "fixedPlan year =
     [(''Exterior Power Washing'', newDate3 year 7 20, Cleaning, F1, ''Exterior''),
      (''CTeen Jr Kickoff'', newDate3 year 7 24, Event, F6, ''Rooftop Lounge''),
      (''Chanukah Parade (CTeen)'', newDate3 year 11 14, Event, F1, ''Garage/Street''),
      (''Purim Party (CTeen)'', newDate3 year 2 1, Event, F2, ''Sanctuary''),
      (''BMC Orientation'', newDate3 year 8 2, Event, F3, ''Offices/Conf Room''),
      (''BMC Challah Bake'', newDate3 year 10 4, Event, F2, ''Sanctuary Hall''),
      (''BMC Gala'', newDate3 year 4 12, Event, F6, ''Rooftop Ballroom''),
      (''Hebrew School Opening'', newDate3 year 8 7, Event, F4, ''Classrooms''),
      (''Family Chanukah Party'', newDate3 year 11 21, Event, F2, ''Sanctuary''),
      (''Rosh Hashana - Fabric Cleaning'', newDate3 year 8 15, Cleaning, F2, ''Sanctuary''),
      (''Sukkah Build'', newDate3 year 8 29, Maintenance, F1, ''Courtyard''),
      (''Pesach Chametz Deep Clean'', newDate3 year 3 10, Cleaning, F6, ''Kitchen/All Floors'')]"

definition seedPlan :: "Date \<Rightarrow> EventSpec list" where
  "seedPlan now =
     (let year = getFullYear (startOfYear now) in
      [(''Backflow Inspection'', newDate3 year 0 15, Maintenance, F1, ''Garage/Main Line''),
       (''Backflow Inspection'', newDate3 year 6 15, Maintenance, F1, ''Garage/Main Line'')]
      @ aromaElevatorPlan year 0
      @ chillerPlan (startOfYear now) 0
      @ greasePlan year [0, 3, 6, 9]
      @ carpetPlan year 0
      @ fixedPlan year)"

definition follows :: "(nat \<Rightarrow> string) \<Rightarrow> Gen \<Rightarrow> EventSpec list \<Rightarrow> bool" where
  "follows rnd st P \<longleftrightarrow> g_events st = planned rnd 0 P \<and> g_rand st = length P"

lemma planned_append:
  "planned rnd k (ps @ qs) = planned rnd k ps @ planned rnd (k + length ps) qs"
  by (induction ps arbitrary: k) auto

lemma follows_push:
  assumes "follows rnd st P"
  shows "follows rnd (push_createEvent rnd title date category fl room st)
           (P @ [(title, date, category, fl, room)])"
    and "g_heap (push_createEvent rnd title date category fl room st) = g_heap st"
  using assms
  by (simp_all add: follows_def push_createEvent_def planned_append createEvent_def Let_def
      generateId_def)

lemma follows_aromaElevatorLoop:
  "follows rnd st P \<Longrightarrow>
     follows rnd (aromaElevatorLoop rnd year i st) (P @ aromaElevatorPlan year i)
     \<and> g_heap (aromaElevatorLoop rnd year i st) = g_heap st"
proof (induction rnd year i st arbitrary: P rule: aromaElevatorLoop.induct)
  case (1 rnd year i st)
  show ?case
  proof (cases "i < 12")
    case True
    then have u: "[i..11] = i # [i + 1..11]" by (simp add: upto_rec1)
    note a = follows_push[OF 1(2), of "''Aroma System Check''" "newDate3 year i 1" Maintenance F2 "''Lobby/Sanctuary''"]
    note b = follows_push[OF a(1), of "''Elevator Maintenance (Eastern)''" "newDate3 year i 5" Maintenance F1 "''All Floors''"]
    show ?thesis
      using 1(1)[OF True b(1)] True a(2) b(2)
      by (subst aromaElevatorLoop.simps, subst (2) aromaElevatorLoop.simps)
         (simp add: aromaElevatorPlan_def u)
  next
    case False
    then have u: "[i..11] = []" by simp
    show ?thesis using False 1(2)
      by (subst aromaElevatorLoop.simps, subst (2) aromaElevatorLoop.simps)
         (simp add: aromaElevatorPlan_def u)
  qed
qed

lemma follows_carpetLoop:
  "follows rnd st P \<Longrightarrow>
     follows rnd (carpetLoop rnd year i st) (P @ carpetPlan year i)
     \<and> g_heap (carpetLoop rnd year i st) = g_heap st"
proof (induction rnd year i st arbitrary: P rule: carpetLoop.induct)
  case (1 rnd year i st)
  show ?case
  proof (cases "i < 12")
    case True
    then have u: "[i..11] = i # [i + 1..11]" by (simp add: upto_rec1)
    note a = follows_push[OF 1(2), of "''Carpet Deep Clean''" "newDate3 year i 15" Cleaning F2 "''Sanctuary''"]
    show ?thesis
      using 1(1)[OF True a(1)] True a(2)
      by (subst carpetLoop.simps, subst (2) carpetLoop.simps) (simp add: carpetPlan_def u)
  next
    case False
    then have u: "[i..11] = []" by simp
    show ?thesis using False 1(2)
      by (subst carpetLoop.simps, subst (2) carpetLoop.simps) (simp add: carpetPlan_def u)
  qed
qed

lemma follows_greaseLoop:
  "follows rnd st P \<Longrightarrow>
     follows rnd (greaseLoop rnd year ms st) (P @ greasePlan year ms)
     \<and> g_heap (greaseLoop rnd year ms st) = g_heap st"
proof (induction ms arbitrary: st P)
  case Nil
  then show ?case by (simp add: greasePlan_def)
next
  case (Cons m ms)
  note a = follows_push[OF Cons(2), of "''Grease Tank/Hood Clean (Yanky)''" "newDate3 year m 10" Maintenance F6 "''Kitchen''"]
  show ?case using Cons(1)[OF a(1)] a(2) by (simp add: greasePlan_def)
qed


lemma mondayOf_eq:
  "mondayOf v = v + ((if getDay v = 0 then - 6 else 1) - getDay v) * msPerDay"
  by (simp add: mondayOf_def Date_setDate_eq)

lemma getDay_shift: "getDay (t + k * msPerDay) = (getDay t + k) mod 7"
proof -
  have "((Day t + 4) mod 7 + k) mod 7 = ((Day t + 4) + k) mod 7" by (rule mod_add_left_eq)
  also have "(Day t + 4) + k = Day t + k + 4" by simp
  finally show ?thesis unfolding getDay_def WeekDay_def Day_shift by simp
qed

lemma getDay_mondayOf: "getDay (mondayOf v) = 1"
proof -
  have r: "0 \<le> getDay v" "getDay v \<le> 6" using WeekDay_range[of v] by (simp_all add: getDay_def)
  show ?thesis
  proof (cases "getDay v = 0")
    case True
    then show ?thesis unfolding mondayOf_eq getDay_shift by simp
  next
    case False
    then show ?thesis unfolding mondayOf_eq getDay_shift by simp
  qed
qed

lemma mondayOf_idem: "mondayOf (mondayOf v) = mondayOf v"
  by (subst mondayOf_eq) (simp add: getDay_mondayOf)

lemma follows_chillerLoop:
  "follows rnd st P \<Longrightarrow> yearStart < fresh (g_heap st) \<Longrightarrow>
     follows rnd (chillerLoop rnd yearStart yearStart i st)
       (P @ chillerPlan (deref (g_heap st) yearStart) i)"
proof (induction "nat (52 - i)" arbitrary: i st P)
  case 0
  then have "\<not> i < 52" and u: "[i..51] = []" by simp_all
  then show ?case using 0(2)
    by (subst chillerLoop.simps) (simp add: chillerPlan_def)
next
  case (Suc n)
  define v where "v = deref (g_heap st) yearStart"
  from Suc(2) have lt: "i < 52" and n: "n = nat (52 - (i + 1))" by simp_all
  then have u: "[i..51] = i # [i + 1..51]" by (simp add: upto_rec1)
  define h1 where "h1 = assign yearStart (mondayOf v) (g_heap st)"
  define h2 where "h2 = snd (alloc (deref h1 yearStart) h1)"
  define st' where "st' = push_createEvent rnd ''Chiller Inspection''
                   (addWeeks (deref h2 yearStart) i) Maintenance F6 ''Rooftop'' (st\<lparr>g_heap := h2\<rparr>)"
  have d2: "deref h2 yearStart = mondayOf v" and f2: "yearStart < fresh h2"
    using Suc(4) by (simp_all add: h2_def h1_def alloc_def assign_def deref_def)
  have f0: "follows rnd (st\<lparr>g_heap := h2\<rparr>) P" using Suc(3) by (simp add: follows_def)
  note a = follows_push[OF f0, of "''Chiller Inspection''" "addWeeks (deref h2 yearStart) i"
      Maintenance F6 "''Rooftop''"]
  have fo: "follows rnd st'
      (P @ [(''Chiller Inspection'', addWeeks (mondayOf v) i, Maintenance, F6, ''Rooftop'')])"
    using a(1) by (simp add: st'_def d2)
  have hp: "g_heap st' = h2" using a(2) by (simp add: st'_def)
  have step: "chillerLoop rnd yearStart yearStart i st = chillerLoop rnd yearStart yearStart (i + 1) st'"
    using lt
    by (subst chillerLoop.simps)
       (simp add: Let_def st'_def h2_def h1_def v_def mondayOf_def split_beta)
  have f2': "yearStart < fresh (g_heap st')" by (simp add: hp f2)
  show ?case
    using Suc(1)[OF n fo f2'] unfolding step hp d2 v_def[symmetric]
    by (simp add: chillerPlan_def u mondayOf_idem)
qed

lemma push_events:
  "g_events (push_createEvent rnd title date category fl room st)
     = g_events st @ [fst (createEvent rnd (g_rand st) title date category fl room 1)]"
  "g_rand (push_createEvent rnd title date category fl room st) = Suc (g_rand st)"
  "g_heap (push_createEvent rnd title date category fl room st) = g_heap st"
  by (simp_all add: push_createEvent_def createEvent_def Let_def generateId_def)

lemma follows_fixedEvents:
  "follows rnd st P \<Longrightarrow> follows rnd (fixedEvents rnd year st) (P @ fixedPlan year)"
  unfolding fixedEvents_def Let_def fixedPlan_def follows_def
  by (simp add: push_events planned_append)

lemma generateInitialData_planned:
  "generateInitialData rnd now = planned rnd 0 (seedPlan now)"
proof -
  define year where "year = getFullYear (startOfYear now)"
  define h0 where "h0 = snd (alloc (startOfYear now) emptyHeap)"
  define st0 where "st0 = \<lparr>g_events = [], g_rand = 0, g_heap = h0\<rparr>"
  define st1 where "st1 = push_createEvent rnd ''Backflow Inspection'' (newDate3 year 0 15)
                  Maintenance F1 ''Garage/Main Line'' st0"
  define st2 where "st2 = push_createEvent rnd ''Backflow Inspection'' (newDate3 year 6 15)
                  Maintenance F1 ''Garage/Main Line'' st1"
  define st3 where "st3 = aromaElevatorLoop rnd year 0 st2"
  define st4 where "st4 = chillerLoop rnd 0 0 0 st3"
  define st5 where "st5 = greaseLoop rnd year [0, 3, 6, 9] st4"
  define st6 where "st6 = carpetLoop rnd year 0 st5"
  define st7 where "st7 = fixedEvents rnd year st6"
  have g: "generateInitialData rnd now = g_events st7"
    by (simp add: generateInitialData_def alloc_def emptyHeap_def Let_def deref_def
        st7_def st6_def st5_def st4_def st3_def st2_def st1_def st0_def h0_def year_def)
  have h0: "deref h0 0 = startOfYear now" "0 < fresh h0"
    by (simp_all add: h0_def alloc_def emptyHeap_def deref_def)
  have f0: "follows rnd st0 []" by (simp add: follows_def st0_def)
  note f1 = follows_push[OF f0, of "''Backflow Inspection''" "newDate3 year 0 15" Maintenance F1
      "''Garage/Main Line''", folded st1_def]
  note f2 = follows_push[OF f1(1), of "''Backflow Inspection''" "newDate3 year 6 15" Maintenance F1
      "''Garage/Main Line''", folded st2_def]
  note f3 = follows_aromaElevatorLoop[OF f2(1), of year 0, folded st3_def]
  have hp3: "g_heap st3 = h0" using f3 f2(2) f1(2) by (simp add: st0_def)
  have f4: "follows rnd st4 ((([] @ [(''Backflow Inspection'', newDate3 year 0 15, Maintenance, F1, ''Garage/Main Line'')])
       @ [(''Backflow Inspection'', newDate3 year 6 15, Maintenance, F1, ''Garage/Main Line'')])
       @ aromaElevatorPlan year 0 @ chillerPlan (startOfYear now) 0)"
    using follows_chillerLoop[OF conjunct1[OF f3], of 0 0] h0 hp3 by (simp add: st4_def)
  note f5 = follows_greaseLoop[OF f4, of year "[0, 3, 6, 9]", folded st5_def]
  note f6 = follows_carpetLoop[OF conjunct1[OF f5], of year 0, folded st6_def]
  note f7 = follows_fixedEvents[OF conjunct1[OF f6], of year, folded st7_def]
  show ?thesis
    using f7 unfolding g by (simp add: follows_def seedPlan_def Let_def year_def)
qed

lemma planned_length: "length (planned rnd k P) = length P"
  by (induction P arbitrary: k) auto

lemma planned_ids: "map e_id (planned rnd k P) = map rnd [k..<k + length P]"
proof (induction P arbitrary: k)
  case Nil
  show ?case by simp
next
  case (Cons p P)
  obtain title date category fl room where p: "p = (title, date, category, fl, room)"
    by (cases p) auto
  have "[k..<k + length (p # P)] = k # [Suc k..<Suc k + length P]"
    by (simp add: upt_rec)
  then show ?case using Cons[of "Suc k"]
    by (simp add: p createEvent_def Let_def generateId_def)
qed

lemma planned_strip:
  "map (\<lambda>e. e\<lparr>e_id := []\<rparr>) (planned rnd k P) = map (\<lambda>e. e\<lparr>e_id := []\<rparr>) (planned rnd' k' P)"
proof (induction P arbitrary: k k')
  case Nil
  show ?case by simp
next
  case (Cons p P)
  obtain title date category fl room where p: "p = (title, date, category, fl, room)"
    by (cases p) auto
  show ?case using Cons[of "Suc k" "Suc k'"]
    by (simp add: p createEvent_def Let_def generateId_def)
qed

lemma planned_valid: "e \<in> set (planned rnd k P) \<Longrightarrow> e_start e \<le> e_end e"
proof (induction P arbitrary: k)
  case Nil
  then show ?case by simp
next
  case (Cons p P)
  obtain title date category fl room where p: "p = (title, date, category, fl, room)"
    by (cases p) auto
  show ?case using Cons createEvent_valid[of rnd k title date category fl room]
    by (auto simp add: p)
qed

lemma planned_nth:
  "i < length P \<Longrightarrow> P ! i = (title, date, category, fl, room) \<Longrightarrow>
     planned rnd k P ! i = fst (createEvent rnd (k + i) title date category fl room 1)"
proof (induction P arbitrary: k i)
  case Nil
  then show ?case by simp
next
  case (Cons p P)
  show ?case
  proof (cases i)
    case 0
    then show ?thesis using Cons(3) by simp
  next
    case (Suc j)
    obtain t d c f r where p: "p = (t, d, c, f, r)" by (cases p) auto
    show ?thesis using Cons(1)[of j "Suc k"] Cons(2,3) Suc by (simp add: p)
  qed
qed

lemma startOfYear_eq: "startOfYear t = MakeDay (getFullYear t) 0 1 * msPerDay"
  unfolding startOfYear_def Date_setFullYear_def
    Date_setHours4_MakeDate[OF TimeWithinDay_range]
  by (simp add: MakeDate_def MakeTime_def)

lemma startOfYear_fields:
  "getFullYear (startOfYear t) = getFullYear t"
  "getMonth (startOfYear t) = 0" "getDate (startOfYear t) = 1"
proof -
  have d: "Day (startOfYear t) = MakeDay (getFullYear t) 0 1"
    by (simp add: startOfYear_eq Day_mult)
  have r: "(0::int) \<le> 0" "(0::int) \<le> 11" "(1::int) \<le> 1" "1 \<le> DaysInMonth (getFullYear t) 0"
    by (simp_all add: DaysInMonth_def)
  note f = fields_from_day[OF r d]
  show "getFullYear (startOfYear t) = getFullYear t"
    "getMonth (startOfYear t) = 0" "getDate (startOfYear t) = 1"
    using f by (simp_all add: getFullYear_def getMonth_def getDate_def)
qed

lemma seedPlan_year: "getFullYear now1 = getFullYear now2 \<Longrightarrow> seedPlan now1 = seedPlan now2"
  by (simp add: seedPlan_def startOfYear_eq)

lemma length_aromaElevatorPlan: "length (aromaElevatorPlan year 0) = 24"
proof -
  have "length (concat (map (\<lambda>j. [f j, g j]) xs)) = 2 * length xs" for f g :: "int \<Rightarrow> EventSpec" and xs
    by (induction xs) auto
  then show ?thesis by (simp add: aromaElevatorPlan_def)
qed

lemma length_seedPlan: "length (seedPlan now) = 106"
  by (simp add: seedPlan_def Let_def length_aromaElevatorPlan chillerPlan_def greasePlan_def
      carpetPlan_def fixedPlan_def)

lemma seedPlan_chiller:
  assumes "i < 52"
  shows "seedPlan now ! (26 + i)
           = (''Chiller Inspection'', addWeeks (mondayOf (startOfYear now)) (int i), Maintenance, F6, ''Rooftop'')"
proof -
  have "seedPlan now ! (26 + i) = chillerPlan (startOfYear now) 0 ! i"
    using assms
    by (simp add: seedPlan_def Let_def nth_append length_aromaElevatorPlan chillerPlan_def)
  then show ?thesis using assms by (simp add: chillerPlan_def)
qed

lemma addWeeks_eq: "addWeeks t n = t + n * 7 * msPerDay"
  by (simp add: addWeeks_def addDays_def Date_setDate_shift)

text \<open>
  What the weekly loop does, in every year: inspection \<open>i\<close> starts at 9 o'clock, \<open>i\<close> weeks
  after the Monday on or before 1 January.
\<close>

lemma chiller_inspection_start:
  assumes "i < 52"
  shows "e_title (generateInitialData rnd now ! (26 + i)) = ''Chiller Inspection''"
    and "e_start (generateInitialData rnd now ! (26 + i))
           = MakeDate (Day (startOfYear now) - (getDay (startOfYear now) + 6) mod 7 + 7 * int i)
               (MakeTime 9 0 0 0)"
proof -
  let ?ys = "startOfYear now"
  let ?d = "addWeeks (mondayOf ?ys) (int i)"
  have n: "26 + i < length (seedPlan now)" using assms by (simp add: length_seedPlan)
  have e: "generateInitialData rnd now ! (26 + i)
             = fst (createEvent rnd (0 + (26 + i)) ''Chiller Inspection'' ?d Maintenance F6 ''Rooftop'' 1)"
    unfolding generateInitialData_planned
    by (rule planned_nth[OF n seedPlan_chiller[OF assms]])
  show "e_title (generateInitialData rnd now ! (26 + i)) = ''Chiller Inspection''"
    unfolding e by (simp add: createEvent_def Let_def generateId_def)
  have r: "0 \<le> getDay ?ys" "getDay ?ys \<le> 6" using WeekDay_range[of ?ys] by (simp_all add: getDay_def)
  have k: "(if getDay ?ys = 0 then - 6 else 1) - getDay ?ys = - ((getDay ?ys + 6) mod 7)"
  proof (cases "getDay ?ys = 0")
    case True
    then show ?thesis by simp
  next
    case False
    have "getDay ?ys + 6 = 7 * 1 + (getDay ?ys - 1)" by simp
    then have "(getDay ?ys + 6) mod 7 = getDay ?ys - 1"
      by (rule int_mod_pos_eq) (use r False in simp_all)
    then show ?thesis using False by simp
  qed
  have ys: "?ys = Day ?ys * msPerDay" by (simp add: startOfYear_eq Day_mult)
  have d: "?d = ?ys + (- ((getDay ?ys + 6) mod 7) + 7 * int i) * msPerDay"
    by (simp add: addWeeks_eq mondayOf_eq k algebra_simps)
  have "Day ?d = Day ?ys - (getDay ?ys + 6) mod 7 + 7 * int i"
    unfolding d Day_shift by simp
  moreover have "TimeWithinDay ?d = 0"
    unfolding d TimeWithinDay_shift by (subst ys) (simp add: Day_mult)
  moreover have "SecFromTime ?d = 0 \<and> msFromTime ?d = 0"
  proof -
    have "?d = MakeDate (Day ?d) (MakeTime 0 0 0 0)"
      using MakeDate_Day[of ?d] \<open>TimeWithinDay ?d = 0\<close> by (simp add: MakeTime_def)
    then show ?thesis
      by (metis time_fields(4,5) order_refl zero_less_numeral)
  qed
  ultimately show "e_start (generateInitialData rnd now ! (26 + i))
           = MakeDate (Day (startOfYear now) - (getDay (startOfYear now) + 6) mod 7 + 7 * int i)
               (MakeTime 9 0 0 0)"
    unfolding e createEvent_times by simp
qed

section \<open>The seed generator in the year 2025, and its ids\<close>

definition midYear2025 :: Date where
  "midYear2025 = newDate5 2025 5 15 12 30"

definition digit36 :: "nat \<Rightarrow> char" where
  "digit36 n = ''0123456789abcdefghijklmnopqrstuvwxyz'' ! (n mod 36)"

definition idsA :: "nat \<Rightarrow> string" where
  "idsA k = [digit36 (k div 36), digit36 k] @ ''x0q2a7m''"

definition idsB :: "nat \<Rightarrow> string" where
  "idsB k = [digit36 (k div 36), digit36 k] @ ''h5c1z9k''"

lemma midYear2025_facts:
  "getFullYear midYear2025 = 2025"
  "Day (startOfYear midYear2025) = 20089"
  "getDay (startOfYear midYear2025) = 3"
  unfolding midYear2025_def startOfYear_eq Day_mult by code_simp+

lemma days_2025:
  "MakeDate 20087 (MakeTime 9 0 0 0) = newDate5 2024 11 30 9 0"
  "MakeDate 20089 (MakeTime 9 0 0 0) = newDate5 2025 0 1 9 0"
  "startOfYear midYear2025 = newDate3 2025 0 1"
  unfolding midYear2025_def by code_simp+

text \<open>
  C1.  The weekly loop on a day of 2025, a year that starts on a Wednesday: the year
  start is 1 January 2025, and the first "Chiller Inspection", the event at index 26,
  starts on 30 December 2024 at 9 o'clock, not on 1 January 2025.  \<open>current\<close> is the
  object \<open>yearStart\<close>, so \<open>current.setDate(diff)\<close> moves the year start to the Monday
  before it, ahead of \<open>addWeeks(yearStart, i)\<close>.
\<close>

theorem chiller_inspection_2025:
  "startOfYear midYear2025 = newDate3 2025 0 1
   \<and> e_title (generateInitialData idsA midYear2025 ! 26) = ''Chiller Inspection''
   \<and> e_start (generateInitialData idsA midYear2025 ! 26) = newDate5 2024 11 30 9 0
   \<and> e_start (generateInitialData idsA midYear2025 ! 26) \<noteq> newDate5 2025 0 1 9 0"
proof -
  have lt: "(0::nat) < 52" by simp
  note c = chiller_inspection_start[OF lt, of idsA midYear2025, unfolded midYear2025_facts]
  have s: "e_start (generateInitialData idsA midYear2025 ! 26) = newDate5 2024 11 30 9 0"
    using c(2) days_2025(1) by simp
  have ne: "newDate5 2024 11 30 9 0 \<noteq> newDate5 2025 0 1 9 0" by code_simp
  show ?thesis using c(1) s ne days_2025(3) by simp
qed


definition winter2025 :: Date where
  "winter2025 = newDate5 2025 0 20 8 0"

lemma winter2025_year: "getFullYear winter2025 = 2025"
  unfolding winter2025_def by code_simp

text \<open>
  C7, as stated, fails: two invocations at the same time of the same year whose random
  draws differ produce different sequences.
\<close>

theorem seed_ids_differ:
  "generateInitialData idsA midYear2025 \<noteq> generateInitialData idsB midYear2025"
proof
  assume "generateInitialData idsA midYear2025 = generateInitialData idsB midYear2025"
  then have "map e_id (planned idsA 0 (seedPlan midYear2025))
           = map e_id (planned idsB 0 (seedPlan midYear2025))"
    by (simp add: generateInitialData_planned)
  then have "map idsA [0..<106] = map idsB [0..<106]"
    by (simp add: planned_ids length_seedPlan)
  then have "idsA 0 = idsB 0" by (simp add: upt_rec[of 0])
  then show False by (simp add: idsA_def idsB_def)
qed

text \<open>
  C7, amended.  Two invocations in the same year produce sequences that are equal
  once the ids are blanked: the same events in the same order, with the same title,
  start, end, category, floor, room and flags.  The ids are the successive random
  draws of the invocation.
\<close>

theorem seed_deterministic_up_to_ids:
  "getFullYear now1 = getFullYear now2 \<Longrightarrow>
     map (\<lambda>e. e\<lparr>e_id := []\<rparr>) (generateInitialData rnd1 now1)
       = map (\<lambda>e. e\<lparr>e_id := []\<rparr>) (generateInitialData rnd2 now2)
     \<and> map e_id (generateInitialData rnd1 now1) = map rnd1 [0..<106]"
  using planned_strip[of rnd1 0 "seedPlan now2" rnd2 0]
  by (simp add: generateInitialData_planned seedPlan_year[of now1 now2] planned_ids length_seedPlan)

theorem seed_deterministic_up_to_ids_witness:
  "getFullYear midYear2025 = getFullYear winter2025
   \<and> map (\<lambda>e. e\<lparr>e_id := []\<rparr>) (generateInitialData idsA midYear2025)
       = map (\<lambda>e. e\<lparr>e_id := []\<rparr>) (generateInitialData idsB winter2025)"
  using seed_deterministic_up_to_ids[of midYear2025 winter2025 idsA idsB]
  by (simp add: midYear2025_facts winter2025_year)

section \<open>The invariant of the event collection\<close>

text \<open>
  The states that \<open>App\<close> reaches: the initial state, the effect that stores the seed
  data, and the handlers.  The inbox of the admin passes a pending request to
  \<open>handleApproveRequest\<close> and \<open>handleRejectRequest\<close>; a click of the admin on an event
  of the calendar opens the edit form on it, which saves or deletes that event.
\<close>

inductive reachable :: "AppState \<Rightarrow> bool" where
  started: "reachable initialState"
| seeded: "reachable st \<Longrightarrow> reachable (st\<lparr>events := generateInitialData rnd now\<rparr>)"
| submitted: "reachable st \<Longrightarrow> reachable (handleSubmitRequest ident reqData st)"
| approved: "reachable st \<Longrightarrow> req \<in> set (requests st) \<Longrightarrow> reachable (handleApproveRequest req st)"
| rejected: "reachable st \<Longrightarrow> req \<in> set (requests st) \<Longrightarrow>
             reachable (handleRejectRequest confirm req st)"
| clicked: "reachable st \<Longrightarrow> e \<in> set (events st) \<Longrightarrow> reachable (st\<lparr>editingEvent := Some e\<rparr>)"
| saved: "reachable st \<Longrightarrow> editingEvent st = Some e \<Longrightarrow>
          reachable (EditEventModal_handleSubmit e formData st)"
| deleted: "reachable st \<Longrightarrow> editingEvent st = Some e \<Longrightarrow>
            reachable (handleDeleteEvent (e_id e) st)"
| closed: "reachable st \<Longrightarrow> reachable (st\<lparr>editingEvent := None\<rparr>)"

definition startBeforeEnd :: "AppState \<Rightarrow> bool" where
  "startBeforeEnd st \<longleftrightarrow> list_all (\<lambda>e. e_start e \<le> e_end e) (events st)"

lemma seed_valid: "list_all (\<lambda>e. e_start e \<le> e_end e) (generateInitialData rnd now)"
  unfolding generateInitialData_planned list_all_iff using planned_valid by blast

lemma approve_valid: "startBeforeEnd st \<Longrightarrow> startBeforeEnd (handleApproveRequest req st)"
  by (simp add: startBeforeEnd_def handleApproveRequest_def)

lemma edit_valid: "startBeforeEnd st \<Longrightarrow> startBeforeEnd (EditEventModal_handleSubmit e formData st)"
proof -
  assume a: "startBeforeEnd st"
  obtain y m d where f: "fd_date formData = (y, m, d)" by (cases "fd_date formData") auto
  have "newDate5 y (m - 1) d 9 0 \<le> Date_setHours (newDate5 y (m - 1) d 9 0) 10"
    unfolding edit_times by (simp add: newDate5_def MakeDate_def MakeTime_def msPerHour_def)
  then show ?thesis using a
    by (auto simp add: startBeforeEnd_def EditEventModal_handleSubmit_def f handleUpdateEvent_def
        list_all_iff Let_def)
qed

lemma delete_valid: "startBeforeEnd st \<Longrightarrow> startBeforeEnd (handleDeleteEvent i st)"
  by (simp add: startBeforeEnd_def handleDeleteEvent_def list_all_iff)

definition approvedFixAC :: AppState where
  "approvedFixAC = handleApproveRequest fixAC (handleSubmitRequest ''k3j9x0q2a'' fixAC initialState)"

definition editForm :: EditFormData where
  "editForm = \<lparr>fd_title = ''Fix AC (3rd floor)'', fd_date = (2025, 3, 12),
                fd_category = Maintenance, fd_floor = F4, fd_room = ''Offices'',
                fd_description = ''The AC drips''\<rparr>"

text \<open>
  C9.  Every event of the seed generator has its start on or before its end; the
  approval of a request and the submission of the edit form keep that true of every
  event of the collection; hence it is true of every event in every state that the
  application reaches.
\<close>

theorem start_before_end_invariant:
  "list_all (\<lambda>e. e_start e \<le> e_end e) (generateInitialData rnd now)
   \<and> (startBeforeEnd st \<longrightarrow> startBeforeEnd (handleApproveRequest req st))
   \<and> (startBeforeEnd st \<longrightarrow> startBeforeEnd (EditEventModal_handleSubmit e formData st))
   \<and> (reachable st \<longrightarrow> startBeforeEnd st)"
proof -
  have "startBeforeEnd st" if "reachable st"
    using that
  proof (induction rule: reachable.induct)
    case started
    show ?case by (simp add: startBeforeEnd_def initialState_def)
  next
    case (seeded st rnd now)
    show ?case using seed_valid[of rnd now] by (simp add: startBeforeEnd_def)
  next
    case (submitted st ident reqData)
    then show ?case by (simp add: startBeforeEnd_def handleSubmitRequest_def)
  next
    case (approved st req)
    then show ?case by (simp add: approve_valid)
  next
    case (rejected st req confirm)
    then show ?case by (simp add: startBeforeEnd_def handleRejectRequest_def)
  next
    case (clicked st e)
    then show ?case by (simp add: startBeforeEnd_def)
  next
    case (saved st e formData)
    then show ?case by (simp add: edit_valid)
  next
    case (deleted st e)
    then show ?case by (simp add: delete_valid)
  next
    case (closed st)
    then show ?case by (simp add: startBeforeEnd_def)
  qed
  then show ?thesis using seed_valid approve_valid edit_valid by blast
qed

theorem start_before_end_invariant_witness:
  "reachable approvedFixAC \<and> startBeforeEnd approvedFixAC
   \<and> events approvedFixAC = [fixACEvent]
   \<and> startBeforeEnd (handleApproveRequest otherRequest approvedFixAC)
   \<and> startBeforeEnd (EditEventModal_handleSubmit fixACEvent editForm approvedFixAC)"
proof -
  have s: "handleSubmitRequest ''k3j9x0q2a'' fixAC initialState
             = \<lparr>events = [], requests = [fixAC], editingEvent = None\<rparr>"
    by (simp add: handleSubmitRequest_def initialState_def fixAC_def)
  have "reachable (handleSubmitRequest ''k3j9x0q2a'' fixAC initialState)"
    by (rule submitted[OF started])
  then have r: "reachable approvedFixAC"
    unfolding approvedFixAC_def by (rule approved) (simp add: s)
  have e: "events approvedFixAC = [fixACEvent]"
    unfolding approvedFixAC_def s
    by (simp add: handleApproveRequest_def fixAC_def fixACEvent_def)
  show ?thesis
    using start_before_end_invariant[of idsA midYear2025 approvedFixAC otherRequest
        fixACEvent editForm] r e
    by simp
qed

section \<open>The calendar view on a store of \<open>Date\<close> objects\<close>

text \<open>
  \<open>CalendarView\<close> once more, with the \<open>Date\<close> objects in a store: \<open>currentDate\<close> and the
  start and end of every event are references.  Every function of \<open>date-fns\<close> copies its
  argument with \<open>toDate\<close> and calls the setters on the copy; \<open>eachDayOfInterval\<close> moves
  one copy of the start from day to day and pushes a copy of it for every day;
  \<open>isSameDay\<close> compares the time values of two \<open>startOfDay\<close> copies.  \<open>Array.filter\<close>
  and \<open>Array.map\<close> build new arrays; their callbacks run against the store in turn.
\<close>

definition toDate :: "nat \<Rightarrow> Heap \<Rightarrow> nat \<times> Heap" where
  "toDate date h = alloc (deref h date) h"

definition startOfDay_obj :: "nat \<Rightarrow> Heap \<Rightarrow> nat \<times> Heap" where
  "startOfDay_obj date h =
     (let (d, h1) = toDate date h;
          h2 = assign d (Date_setHours4 (deref h1 d) 0 0 0 0) h1
      in (d, h2))"

definition startOfMonth_obj :: "nat \<Rightarrow> Heap \<Rightarrow> nat \<times> Heap" where
  "startOfMonth_obj date h =
     (let (d, h1) = toDate date h;
          h2 = assign d (Date_setDate (deref h1 d) 1) h1;
          h3 = assign d (Date_setHours4 (deref h2 d) 0 0 0 0) h2
      in (d, h3))"

definition endOfMonth_obj :: "nat \<Rightarrow> Heap \<Rightarrow> nat \<times> Heap" where
  "endOfMonth_obj date h =
     (let (d, h1) = toDate date h;
          month = getMonth (deref h1 d);
          h2 = assign d (Date_setFullYear (deref h1 d) (getFullYear (deref h1 d)) (month + 1) 0) h1;
          h3 = assign d (Date_setHours4 (deref h2 d) 23 59 59 999) h2
      in (d, h3))"

definition startOfWeek_obj :: "nat \<Rightarrow> Heap \<Rightarrow> nat \<times> Heap" where
  "startOfWeek_obj date h =
     (let (d, h1) = toDate date h;
          day = getDay (deref h1 d);
          diff = (if day < weekStartsOn then 7 else 0) + day - weekStartsOn;
          h2 = assign d (Date_setDate (deref h1 d) (getDate (deref h1 d) - diff)) h1;
          h3 = assign d (Date_setHours4 (deref h2 d) 0 0 0 0) h2
      in (d, h3))"

definition endOfWeek_obj :: "nat \<Rightarrow> Heap \<Rightarrow> nat \<times> Heap" where
  "endOfWeek_obj date h =
     (let (d, h1) = toDate date h;
          day = getDay (deref h1 d);
          diff = (if day < weekStartsOn then - 7 else 0) + 6 - (day - weekStartsOn);
          h2 = assign d (Date_setDate (deref h1 d) (getDate (deref h1 d) + diff)) h1;
          h3 = assign d (Date_setHours4 (deref h2 d) 23 59 59 999) h2
      in (d, h3))"

definition isSameDay_obj :: "nat \<Rightarrow> nat \<Rightarrow> Heap \<Rightarrow> bool \<times> Heap" where
  "isSameDay_obj dateLeft dateRight h =
     (let (l, h1) = startOfDay_obj dateLeft h;
          (r, h2) = startOfDay_obj dateRight h1
      in (deref h2 l = deref h2 r, h2))"

function eachDayLoop_obj :: "nat \<Rightarrow> Date \<Rightarrow> nat list \<Rightarrow> Heap \<Rightarrow> nat list \<times> Heap" where
  "eachDayLoop_obj date endTime dates h =
     (if deref h date \<le> endTime
      then let (c, h1) = toDate date h;
               h2 = assign date (Date_setDate (deref h1 date) (getDate (deref h1 date) + 1)) h1;
               h3 = assign date (Date_setHours4 (deref h2 date) 0 0 0 0) h2
           in eachDayLoop_obj date endTime (dates @ [c]) h3
      else (dates, h))"
  by pat_completeness auto
termination
proof (relation "measure (\<lambda>(date, endTime, dates, h). nat (endTime - deref h date + 1))", goal_cases)
  case 1
  show ?case by simp
next
  case (2 date endTime dates h x xa y xb xc)
  then have "(xa, y) = alloc (deref h date) h" by (simp add: toDate_def)
  then have h1: "y = snd (alloc (deref h date) h)" by (metis snd_conv)
  have d1: "deref y date = deref h date"
    by (simp add: h1 alloc_def deref_def)
  have "deref xc date = (Day (deref h date) + 1) * msPerDay"
    using 2 by (simp add: assign_def deref_def d1[unfolded deref_def] next_day_start)
  then show ?case using 2(1) Day_upper[of "deref h date"] by simp
qed

declare eachDayLoop_obj.simps [simp del]

definition eachDayOfInterval_obj :: "nat \<Rightarrow> nat \<Rightarrow> Heap \<Rightarrow> nat list \<times> Heap" where
  "eachDayOfInterval_obj start en h =
     (let (s, h1) = toDate start h;
          (e, h2) = toDate en h1;
          reversed = (deref h2 e < deref h2 s);
          endTime = (if reversed then deref h2 s else deref h2 e);
          date = (if reversed then e else s);
          h3 = assign date (Date_setHours4 (deref h2 date) 0 0 0 0) h2;
          (dates, h4) = eachDayLoop_obj date endTime [] h3
      in (if reversed then rev dates else dates, h4))"

fun filter_obj :: "('a \<Rightarrow> Heap \<Rightarrow> bool \<times> Heap) \<Rightarrow> 'a list \<Rightarrow> Heap \<Rightarrow> 'a list \<times> Heap" where
  "filter_obj p [] h = ([], h)"
| "filter_obj p (x # xs) h =
     (let (keep, h1) = p x h;
          (ys, h2) = filter_obj p xs h1
      in (if keep then x # ys else ys, h2))"

fun map_obj :: "('a \<Rightarrow> Heap \<Rightarrow> 'b \<times> Heap) \<Rightarrow> 'a list \<Rightarrow> Heap \<Rightarrow> 'b list \<times> Heap" where
  "map_obj f [] h = ([], h)"
| "map_obj f (x # xs) h =
     (let (y, h1) = f x h;
          (ys, h2) = map_obj f xs h1
      in (y # ys, h2))"

definition dayEvents_obj ::
  "nat CalendarEvent list \<Rightarrow> nat \<Rightarrow> Heap \<Rightarrow> nat CalendarEvent list \<times> Heap" where
  "dayEvents_obj filtered day h = filter_obj (\<lambda>e. isSameDay_obj (e_start e) day) filtered h"

definition CalendarView_obj ::
  "nat \<Rightarrow> nat CalendarEvent list \<Rightarrow> FilterState \<Rightarrow> Heap
     \<Rightarrow> (nat \<times> nat CalendarEvent list) list \<times> Heap" where
  "CalendarView_obj currentDate evs filters h =
     (let (monthStart, h1) = startOfMonth_obj currentDate h;
          (monthEnd, h2) = endOfMonth_obj monthStart h1;
          (startDate, h3) = startOfWeek_obj monthStart h2;
          (endDate, h4) = endOfWeek_obj monthEnd h3;
          (days, h5) = eachDayOfInterval_obj startDate endDate h4;
          filtered = filteredEvents evs filters
      in map_obj (\<lambda>day hd. let (bucket, hd') = dayEvents_obj filtered day hd
                             in ((day, bucket), hd')) days h5)"

definition eventValue :: "Heap \<Rightarrow> nat CalendarEvent \<Rightarrow> Event" where
  "eventValue h e =
     \<lparr>e_id = e_id e, e_title = e_title e, e_start = deref h (e_start e),
      e_end = deref h (e_end e), e_category = e_category e, e_floor = e_floor e,
      e_room = e_room e, e_description = e_description e,
      e_isRecurring = e_isRecurring e\<rparr>"

definition gridValue :: "Heap \<Rightarrow> (nat \<times> nat CalendarEvent list) list \<Rightarrow> (Date \<times> Event list) list" where
  "gridValue h grid = map (\<lambda>(day, bucket). (deref h day, map (eventValue h) bucket)) grid"

definition extends :: "Heap \<Rightarrow> Heap \<Rightarrow> bool" where
  "extends h h' \<longleftrightarrow> fresh h \<le> fresh h' \<and> (\<forall>r < fresh h. deref h' r = deref h r)"


lemma alloc_simps:
  "fst (alloc v h) = fresh h"
  "fresh (snd (alloc v h)) = Suc (fresh h)"
  "deref (snd (alloc v h)) r = (if r = fresh h then v else deref h r)"
  by (simp_all add: alloc_def deref_def)

lemma clone_then_set:
  "(let (d, h1) = toDate date h; h2 = assign d (f (deref h1 d)) h1 in (d, h2))
     = alloc (f (deref h date)) h"
  by (simp add: toDate_def alloc_def assign_def deref_def)

lemma clone_then_set2:
  "(let (d, h1) = toDate date h; h2 = assign d (f (deref h1 d)) h1;
        h3 = assign d (g (deref h2 d)) h2 in (d, h3))
     = alloc (g (f (deref h date))) h"
  by (simp add: toDate_def alloc_def assign_def deref_def)

lemma startOfDay_obj_eq: "startOfDay_obj date h = alloc (startOfDay (deref h date)) h"
  unfolding startOfDay_obj_def startOfDay_def
  by (rule clone_then_set[of date h "\<lambda>t. Date_setHours4 t 0 0 0 0"])

lemma startOfMonth_obj_eq: "startOfMonth_obj date h = alloc (startOfMonth (deref h date)) h"
  unfolding startOfMonth_obj_def startOfMonth_def
  by (rule clone_then_set2[of date h "\<lambda>t. Date_setDate t 1" "\<lambda>t. Date_setHours4 t 0 0 0 0"])

lemma endOfMonth_obj_eq: "endOfMonth_obj date h = alloc (endOfMonth (deref h date)) h"
  unfolding endOfMonth_obj_def endOfMonth_def
  by (simp add: toDate_def alloc_def assign_def deref_def Let_def)

lemma startOfWeek_obj_eq: "startOfWeek_obj date h = alloc (startOfWeek (deref h date)) h"
  unfolding startOfWeek_obj_def startOfWeek_def
  by (simp add: toDate_def alloc_def assign_def deref_def Let_def)

lemma endOfWeek_obj_eq: "endOfWeek_obj date h = alloc (endOfWeek (deref h date)) h"
  unfolding endOfWeek_obj_def endOfWeek_def
  by (simp add: toDate_def alloc_def assign_def deref_def Let_def)

lemma extends_refl: "extends h h"
  by (simp add: extends_def)

lemma extends_trans: "extends h1 h2 \<Longrightarrow> extends h2 h3 \<Longrightarrow> extends h1 h3"
  by (auto simp add: extends_def)

lemma extends_alloc: "extends h (snd (alloc v h))"
  by (simp add: extends_def alloc_simps)

lemma extends_deref: "extends h h' \<Longrightarrow> r < fresh h \<Longrightarrow> deref h' r = deref h r"
  by (simp add: extends_def)

lemma extends_fresh: "extends h h' \<Longrightarrow> r < fresh h \<Longrightarrow> r < fresh h'"
  by (simp add: extends_def)

lemma isSameDay_obj_spec:
  assumes "dateRight < fresh h"
  shows "fst (isSameDay_obj dateLeft dateRight h) = isSameDay (deref h dateLeft) (deref h dateRight)"
    and "extends h (snd (isSameDay_obj dateLeft dateRight h))"
proof -
  define h1 where "h1 = snd (alloc (startOfDay (deref h dateLeft)) h)"
  define h2 where "h2 = snd (alloc (startOfDay (deref h1 dateRight)) h1)"
  have e: "isSameDay_obj dateLeft dateRight h = (deref h2 (fresh h) = deref h2 (fresh h1), h2)"
    by (simp add: isSameDay_obj_def startOfDay_obj_eq h1_def h2_def alloc_def)
  have r: "deref h1 dateRight = deref h dateRight"
    using assms by (simp add: h1_def alloc_simps)
  have f1: "fresh h1 = Suc (fresh h)" by (simp add: h1_def alloc_simps)
  show "fst (isSameDay_obj dateLeft dateRight h) = isSameDay (deref h dateLeft) (deref h dateRight)"
    unfolding e by (simp add: h2_def alloc_simps f1 r isSameDay_def) (simp add: h1_def alloc_simps)
  show "extends h (snd (isSameDay_obj dateLeft dateRight h))"
    unfolding e using extends_trans[OF extends_alloc extends_alloc]
    by (simp add: h2_def h1_def)
qed

lemma dayEvents_obj_spec:
  assumes "day < fresh h" "\<forall>e\<in>set xs. e_start e < fresh h"
  shows "fst (dayEvents_obj xs day h)
           = filter (\<lambda>e. isSameDay (deref h (e_start e)) (deref h day)) xs
         \<and> extends h (snd (dayEvents_obj xs day h))"
  using assms
proof (induction xs arbitrary: h)
  case Nil
  show ?case by (simp add: dayEvents_obj_def extends_refl)
next
  case (Cons x xs)
  define h1 where "h1 = snd (isSameDay_obj (e_start x) day h)"
  note s = isSameDay_obj_spec[OF Cons(2), of "e_start x", folded h1_def]
  have d1: "day < fresh h1" using extends_fresh[OF s(2) Cons(2)] .
  have x1: "\<forall>e\<in>set xs. e_start e < fresh h1"
    using Cons(3) extends_fresh[OF s(2)] by simp
  note ih = Cons(1)[OF d1 x1, unfolded dayEvents_obj_def]
  have v: "deref h1 day = deref h day" "\<forall>e\<in>set xs. deref h1 (e_start e) = deref h (e_start e)"
    using extends_deref[OF s(2)] Cons(2,3) by simp_all
  have f: "filter (\<lambda>e. isSameDay (deref h1 (e_start e)) (deref h1 day)) xs
         = filter (\<lambda>e. isSameDay (deref h (e_start e)) (deref h day)) xs"
    using v by (intro filter_cong) simp_all
  show ?case
    unfolding dayEvents_obj_def
    using s(1) ih extends_trans[OF s(2)] f
    by (simp add: split_beta Let_def h1_def)
qed


lemma grid_obj_spec:
  assumes "\<forall>d\<in>set days. d < fresh h" "\<forall>e\<in>set xs. e_start e < fresh h"
  shows "fst (map_obj (\<lambda>day hd. let (bucket, hd') = dayEvents_obj xs day hd
                                 in ((day, bucket), hd')) days h)
           = map (\<lambda>day. (day, filter (\<lambda>e. isSameDay (deref h (e_start e)) (deref h day)) xs)) days
         \<and> extends h (snd (map_obj (\<lambda>day hd. let (bucket, hd') = dayEvents_obj xs day hd
                                 in ((day, bucket), hd')) days h))"
  using assms
proof (induction days arbitrary: h)
  case Nil
  show ?case by (simp add: extends_refl)
next
  case (Cons d ds)
  define h1 where "h1 = snd (dayEvents_obj xs d h)"
  have d0: "d < fresh h" using Cons(2) by simp
  note s = dayEvents_obj_spec[OF d0 Cons(3), folded h1_def]
  have e: "extends h h1" using s by simp
  have ds1: "\<forall>d\<in>set ds. d < fresh h1" using Cons(2) extends_fresh[OF e] by simp
  have xs1: "\<forall>e\<in>set xs. e_start e < fresh h1" using Cons(3) extends_fresh[OF e] by simp
  note ih = Cons(1)[OF ds1 xs1]
  have v: "\<forall>d\<in>set ds. deref h1 d = deref h d" "\<forall>e\<in>set xs. deref h1 (e_start e) = deref h (e_start e)"
    using extends_deref[OF e] Cons(2,3) by simp_all
  have f: "filter (\<lambda>e. isSameDay (deref h1 (e_start e)) (deref h1 day)) xs
         = filter (\<lambda>e. isSameDay (deref h (e_start e)) (deref h day)) xs" if "day \<in> set ds" for day
    using v that by (intro filter_cong) simp_all
  have m: "map (\<lambda>day. (day, filter (\<lambda>e. isSameDay (deref h1 (e_start e)) (deref h1 day)) xs)) ds
         = map (\<lambda>day. (day, filter (\<lambda>e. isSameDay (deref h (e_start e)) (deref h day)) xs)) ds"
    using f by simp
  show ?case
    using s ih extends_trans[OF e] m
    by (simp add: split_beta Let_def h1_def)
qed

lemma eachDayLoop_obj_spec:
  assumes "date < fresh h"
  shows "\<exists>news h'. eachDayLoop_obj date endTime dates h = (dates @ news, h')
           \<and> map (deref h') news = eachDayLoop (deref h date) endTime
           \<and> fresh h \<le> fresh h'
           \<and> (\<forall>r < fresh h. r \<noteq> date \<longrightarrow> deref h' r = deref h r)
           \<and> (\<forall>r\<in>set news. fresh h \<le> r \<and> r < fresh h')"
  using assms
proof (induction "nat (endTime - deref h date + 1)" arbitrary: h dates rule: less_induct)
  case less
  show ?case
  proof (cases "deref h date \<le> endTime")
    case False
    then show ?thesis
      by (subst eachDayLoop_obj.simps, subst eachDayLoop.simps) simp
  next
    case True
    define c where "c = fresh h"
    define h1 where "h1 = snd (alloc (deref h date) h)"
    define nxt where "nxt = Date_setHours4 (Date_setDate (deref h date) (getDate (deref h date) + 1)) 0 0 0 0"
    define h3 where "h3 = assign date nxt h1"
    have d1: "deref h1 date = deref h date" using less(2) by (simp add: h1_def alloc_simps)
    have step: "eachDayLoop_obj date endTime dates h = eachDayLoop_obj date endTime (dates @ [c]) h3"
      using True
      by (subst eachDayLoop_obj.simps)
         (simp add: toDate_def alloc_def assign_def deref_def h3_def h1_def nxt_def c_def Let_def)
    have d3: "deref h3 date = nxt" by (simp add: h3_def assign_def deref_def)
    have f3: "fresh h3 = Suc (fresh h)" by (simp add: h3_def assign_def h1_def alloc_simps)
    have o3: "deref h3 r = (if r = date then nxt else if r = c then deref h date else deref h r)" for r
      by (simp add: h3_def assign_def deref_def h1_def alloc_def c_def)
    have nx: "nxt = (Day (deref h date) + 1) * msPerDay" by (simp add: nxt_def next_day_start)
    have dec: "nat (endTime - deref h3 date + 1) < nat (endTime - deref h date + 1)"
      using True Day_upper[of "deref h date"] by (simp add: d3 nx)
    have lt3: "date < fresh h3" using less(2) by (simp add: f3)
    obtain news h' where ih:
      "eachDayLoop_obj date endTime (dates @ [c]) h3 = ((dates @ [c]) @ news, h')"
      "map (deref h') news = eachDayLoop (deref h3 date) endTime"
      "fresh h3 \<le> fresh h'"
      "\<forall>r < fresh h3. r \<noteq> date \<longrightarrow> deref h' r = deref h3 r"
      "\<forall>r\<in>set news. fresh h3 \<le> r \<and> r < fresh h'"
      using less(1)[OF dec lt3] by blast
    have cd: "c \<noteq> date" using less(2) by (simp add: c_def)
    have dc: "deref h' c = deref h date"
      using ih(4) cd by (simp add: f3 c_def o3)
    have el: "eachDayLoop (deref h date) endTime = deref h date # eachDayLoop nxt endTime"
      using True by (subst eachDayLoop.simps) (simp add: nxt_def)
    show ?thesis
    proof (intro exI[of _ "c # news"] exI[of _ h'] conjI)
      show "eachDayLoop_obj date endTime dates h = (dates @ c # news, h')"
        using step ih(1) by simp
      show "map (deref h') (c # news) = eachDayLoop (deref h date) endTime"
        using ih(2) dc by (simp add: el d3)
      show "fresh h \<le> fresh h'" using ih(3) by (simp add: f3)
      show "\<forall>r<fresh h. r \<noteq> date \<longrightarrow> deref h' r = deref h r"
        using ih(4) by (simp add: f3 o3 c_def)
      show "\<forall>r\<in>set (c # news). fresh h \<le> r \<and> r < fresh h'"
        using ih(3,5) by (auto simp add: f3 c_def)
    qed
  qed
qed

lemma eachDayOfInterval_obj_spec:
  assumes "start < fresh h" "en < fresh h"
  shows "\<exists>days h'. eachDayOfInterval_obj start en h = (days, h')
           \<and> map (deref h') days = eachDayOfInterval (deref h start) (deref h en)
           \<and> extends h h'
           \<and> (\<forall>d\<in>set days. d < fresh h')"
proof -
  define s where "s = fresh h"
  define e where "e = Suc (fresh h)"
  define h2 where "h2 = snd (alloc (deref h en) (snd (alloc (deref h start) h)))"
  define reversed where "reversed = (deref h en < deref h start)"
  define endTime where "endTime = (if reversed then deref h start else deref h en)"
  define date where "date = (if reversed then e else s)"
  define h3 where "h3 = assign date (Date_setHours4 (deref h2 date) 0 0 0 0) h2"
  have o2: "deref h2 r = (if r = e then deref h en else if r = s then deref h start else deref h r)" for r
    using assms by (simp add: h2_def alloc_simps e_def s_def)
  have f2: "fresh h2 = fresh h + 2" by (simp add: h2_def alloc_simps)
  have f3: "fresh h3 = fresh h + 2" by (simp add: h3_def assign_def f2)
  have o3: "deref h3 r = (if r = date then Date_setHours4 (deref h2 date) 0 0 0 0 else deref h2 r)" for r
    by (simp add: h3_def assign_def deref_def)
  have dl: "date < fresh h3" by (simp add: f3 date_def e_def s_def)
  have dg: "fresh h \<le> date" by (simp add: date_def e_def s_def)
  obtain news h' where l:
    "eachDayLoop_obj date endTime [] h3 = ([] @ news, h')"
    "map (deref h') news = eachDayLoop (deref h3 date) endTime"
    "fresh h3 \<le> fresh h'"
    "\<forall>r < fresh h3. r \<noteq> date \<longrightarrow> deref h' r = deref h3 r"
    "\<forall>r\<in>set news. fresh h3 \<le> r \<and> r < fresh h'"
    using eachDayLoop_obj_spec[OF dl, of endTime "[]"] by blast
  have unf: "eachDayOfInterval_obj start en h = (if reversed then rev news else news, h')"
    using l(1) assms
    by (simp add: eachDayOfInterval_obj_def toDate_def alloc_def deref_def Let_def
        h3_def[unfolded deref_def h2_def alloc_def] date_def e_def s_def
        reversed_def endTime_def assign_def split: if_splits)
  have val: "map (deref h') (if reversed then rev news else news)
               = eachDayOfInterval (deref h start) (deref h en)"
  proof (cases reversed)
    case True
    then have "deref h3 date = Date_setHours4 (deref h en) 0 0 0 0" "endTime = deref h start"
      by (simp_all add: o3 o2 date_def endTime_def)
    then show ?thesis using l(2) True
      by (simp add: eachDayOfInterval_def Let_def reversed_def[symmetric] rev_map[symmetric])
  next
    case False
    then have "deref h3 date = Date_setHours4 (deref h start) 0 0 0 0" "endTime = deref h en"
      by (simp_all add: o3 o2 date_def endTime_def e_def s_def)
    then show ?thesis using l(2) False
      by (simp add: eachDayOfInterval_def Let_def reversed_def[symmetric])
  qed
  have ext: "extends h h'"
    unfolding extends_def
  proof (intro conjI allI impI)
    show "fresh h \<le> fresh h'" using l(3) by (simp add: f3)
    fix r assume r: "r < fresh h"
    then have "r \<noteq> date" "r < fresh h3" using dg by (simp_all add: f3)
    then have "deref h' r = deref h3 r" using l(4) by simp
    then show "deref h' r = deref h r" using r dg by (simp add: o3 o2 e_def s_def)
  qed
  show ?thesis
    using unf val ext l(5) by (intro exI[of _ "if reversed then rev news else news"] exI[of _ h']) auto
qed

text \<open>
  An event collection is \<open>allocated\<close> in a store when the start and the end of every
  event are objects of the store.  \<open>eventValue\<close> and \<open>gridValue\<close> read the time values of
  the objects of an event and of a grid; \<open>extends h h'\<close> says that every object of \<open>h\<close>
  is in \<open>h'\<close> with its time value.
\<close>

definition allocated :: "Heap \<Rightarrow> nat CalendarEvent list \<Rightarrow> bool" where
  "allocated h evs \<longleftrightarrow> list_all (\<lambda>e. e_start e < fresh h \<and> e_end e < fresh h) evs"

definition gridAllocated :: "Heap \<Rightarrow> (nat \<times> nat CalendarEvent list) list \<Rightarrow> bool" where
  "gridAllocated h grid \<longleftrightarrow> list_all (\<lambda>(day, bucket). day < fresh h \<and> allocated h bucket) grid"

lemma eventValue_extends:
  "extends h h' \<Longrightarrow> allocated h evs \<Longrightarrow> map (eventValue h') evs = map (eventValue h) evs"
  by (simp add: allocated_def list_all_iff eventValue_def extends_def)

lemma allocated_extends: "extends h h' \<Longrightarrow> allocated h evs \<Longrightarrow> allocated h' evs"
  by (auto simp add: allocated_def list_all_iff extends_def)

lemma gridValue_extends:
  assumes "extends h h'" "gridAllocated h grid"
  shows "gridValue h' grid = gridValue h grid"
proof -
  have "(case x of (day, bucket) \<Rightarrow> (deref h' day, map (eventValue h') bucket))
      = (case x of (day, bucket) \<Rightarrow> (deref h day, map (eventValue h) bucket))"
    if "x \<in> set grid" for x
    using that assms(2) eventValue_extends[OF assms(1)] extends_deref[OF assms(1)]
    by (auto simp add: gridAllocated_def list_all_iff)
  then show ?thesis by (simp add: gridValue_def)
qed

lemma filteredEvents_eventValue:
  "map (eventValue h) (filteredEvents evs f) = filteredEvents (map (eventValue h) evs) f"
proof -
  have "e_category (eventValue h e) = e_category e" "e_floor (eventValue h e) = e_floor e" for e
    by (simp_all add: eventValue_def)
  then have "filterCallback f (eventValue h e) = filterCallback f e" for e
    unfolding filterCallback_def by (cases "f_floor f") simp_all
  then show ?thesis by (simp add: filteredEvents_def filter_map comp_def)
qed

lemma CalendarView_obj_spec:
  assumes cur: "currentDate < fresh h" and evs: "allocated h evs"
  shows "\<exists>grid h'. CalendarView_obj currentDate evs f h = (grid, h')
           \<and> gridValue h' grid = CalendarView_grid (deref h currentDate) (map (eventValue h) evs) f
           \<and> extends h h' \<and> gridAllocated h' grid"
proof -
  define ms where "ms = startOfMonth (deref h currentDate)"
  define me where "me = endOfMonth ms"
  define h1 where "h1 = snd (alloc ms h)"
  define h2 where "h2 = snd (alloc me h1)"
  define h3 where "h3 = snd (alloc (startOfWeek ms) h2)"
  define h4 where "h4 = snd (alloc (endOfWeek me) h3)"
  define startDate where "startDate = fresh h2"
  define endDate where "endDate = fresh h3"
  define filtered where "filtered = filteredEvents evs f"
  have fr: "fresh h1 = Suc (fresh h)" "fresh h2 = Suc (Suc (fresh h))"
    "fresh h3 = Suc (Suc (Suc (fresh h)))" "fresh h4 = Suc (Suc (Suc (Suc (fresh h))))"
    by (simp_all add: h1_def h2_def h3_def h4_def alloc_simps)
  have "extends h h1" "extends h1 h2" "extends h2 h3" "extends h3 h4"
    unfolding h4_def h3_def h2_def h1_def by (rule extends_alloc)+
  then have e4: "extends h h4"
    by (blast intro: extends_trans)
  have v4: "deref h4 startDate = startOfWeek ms" "deref h4 endDate = endOfWeek me"
    by (simp_all add: h4_def h3_def alloc_simps startDate_def endDate_def fr)
  have lt4: "startDate < fresh h4" "endDate < fresh h4"
    by (simp_all add: startDate_def endDate_def fr)
  obtain days h5 where d:
    "eachDayOfInterval_obj startDate endDate h4 = (days, h5)"
    "map (deref h5) days = eachDayOfInterval (deref h4 startDate) (deref h4 endDate)"
    "extends h4 h5" "\<forall>d\<in>set days. d < fresh h5"
    using eachDayOfInterval_obj_spec[OF lt4] by blast
  have e5: "extends h h5" using extends_trans[OF e4 d(3)] .
  have days: "map (deref h5) days = CalendarView_days (deref h currentDate)"
    using d(2) by (simp add: v4 CalendarView_days_def Let_def ms_def me_def)
  have p1: "startOfMonth_obj currentDate h = (fresh h, h1)"
    by (simp add: startOfMonth_obj_eq alloc_def h1_def ms_def)
  have p2: "endOfMonth_obj (fresh h) h1 = (fresh h1, h2)"
    by (simp add: endOfMonth_obj_eq h2_def me_def) (simp add: alloc_def h1_def deref_def)
  have p3: "startOfWeek_obj (fresh h) h2 = (startDate, h3)"
    by (simp add: startOfWeek_obj_eq h3_def startDate_def)
       (simp add: alloc_def h2_def h1_def deref_def)
  have p4: "endOfWeek_obj (fresh h1) h3 = (endDate, h4)"
    by (simp add: endOfWeek_obj_eq h4_def endDate_def)
       (simp add: alloc_def h3_def h2_def h1_def deref_def)
  have unf: "CalendarView_obj currentDate evs f h
       = map_obj (\<lambda>day hd. let (bucket, hd') = dayEvents_obj filtered day hd
                            in ((day, bucket), hd')) days h5"
    unfolding CalendarView_obj_def
    by (simp only: p1 p2 p3 p4 d(1) Let_def prod.case filtered_def)
  define grid where "grid = fst (map_obj (\<lambda>day hd. let (bucket, hd') = dayEvents_obj filtered day hd
                            in ((day, bucket), hd')) days h5)"
  define h6 where "h6 = snd (map_obj (\<lambda>day hd. let (bucket, hd') = dayEvents_obj filtered day hd
                            in ((day, bucket), hd')) days h5)"
  have a5: "allocated h5 evs" using allocated_extends[OF e5 evs] .
  have sub: "set filtered \<subseteq> set evs" by (auto simp add: filtered_def filteredEvents_def)
  have fa5: "\<forall>e\<in>set filtered. e_start e < fresh h5"
    using a5 sub by (auto simp add: allocated_def list_all_iff)
  note g = grid_obj_spec[OF d(4) fa5, folded grid_def h6_def]
  have e56: "extends h5 h6" using g by simp
  have e6: "extends h h6" using extends_trans[OF e5 e56] .
  have ga: "gridAllocated h6 grid"
  proof -
    have "allocated h6 (filter P filtered)" for P
      using allocated_extends[OF e6 evs] sub by (auto simp add: allocated_def list_all_iff)
    then show ?thesis
      using g d(4) extends_fresh[OF e56] by (simp add: gridAllocated_def list_all_iff)
  qed
  have st: "deref h5 (e_start e) = e_start (eventValue h e)" if "e \<in> set filtered" for e
    using that sub evs extends_deref[OF e5] by (auto simp add: allocated_def list_all_iff eventValue_def)
  have ev6: "eventValue h6 e = eventValue h e" if "e \<in> set filtered" for e
    using eventValue_extends[OF e6 evs] sub that by auto
  have bucket: "map (eventValue h6) (filter (\<lambda>e. isSameDay (deref h5 (e_start e)) t) filtered)
        = filter (\<lambda>e. isSameDay (e_start e) t) (map (eventValue h) filtered)" for t
  proof -
    have "filter (\<lambda>e. isSameDay (deref h5 (e_start e)) t) filtered
        = filter (\<lambda>e. isSameDay (e_start (eventValue h e)) t) filtered"
      using st by (intro filter_cong) simp_all
    moreover have "map (eventValue h6) (filter P filtered) = map (eventValue h) (filter P filtered)" for P
      using ev6 by (intro map_cong) simp_all
    ultimately show ?thesis
      by (simp add: filter_map comp_def)
  qed
  have dv: "deref h6 day = deref h5 day" if "day \<in> set days" for day
    using that d(4) extends_deref[OF e56] by simp
  have "gridValue h6 grid
      = map (\<lambda>day. (deref h5 day,
               filter (\<lambda>e. isSameDay (e_start e) (deref h5 day)) (map (eventValue h) filtered))) days"
    using g dv by (simp add: gridValue_def bucket)
  also have "\<dots> = map (\<lambda>t. (t, filter (\<lambda>e. isSameDay (e_start e) t) (map (eventValue h) filtered)))
                     (map (deref h5) days)"
    by (simp add: comp_def)
  also have "\<dots> = CalendarView_grid (deref h currentDate) (map (eventValue h) evs) f"
    by (simp add: days CalendarView_grid_def dayEvents_def filtered_def filteredEvents_eventValue)
  finally have val: "gridValue h6 grid
      = CalendarView_grid (deref h currentDate) (map (eventValue h) evs) f" .
  show ?thesis
    using unf val e6 ga by (intro exI[of _ grid] exI[of _ h6]) (simp add: grid_def h6_def)
qed


definition viewHeap :: Heap where
  "viewHeap = \<lparr>cells = (\<lambda>r. if r = 0 then midYear2025
                            else if r = 1 then newDate5 2025 5 3 9 0
                            else if r = 2 then newDate5 2025 5 3 10 0 else 0),
               fresh = 3\<rparr>"

definition viewEvents :: "nat CalendarEvent list" where
  "viewEvents =
     [\<lparr>e_id = ''k3j9x0q2a'', e_title = ''Fix AC'', e_start = 1, e_end = 2,
       e_category = Maintenance, e_floor = F3, e_room = ''Offices'',
       e_description = Some ''The AC drips'', e_isRecurring = None\<rparr>]"

definition showAll :: FilterState where
  "showAll = \<lparr>showMaintenance = True, showCleaning = True, showEvents = True, f_floor = None\<rparr>"

text \<open>
  C8.  Two invocations of the projector, one after the other, with the same reference
  date, filter state and event collection: the two grids have the same dates and the
  same buckets, and they are the grid of the model on time values; after each
  invocation every object that was in the store before it, the reference date and the
  start and end of every event among them, has the time value it had, so the event
  collection reads the same.
\<close>

theorem grid_projector_idempotent:
  assumes "currentDate < fresh h" and "allocated h evs"
  shows "\<exists>grid1 h1 grid2 h2.
           CalendarView_obj currentDate evs f h = (grid1, h1)
           \<and> CalendarView_obj currentDate evs f h1 = (grid2, h2)
           \<and> gridValue h2 grid1 = gridValue h2 grid2
           \<and> gridValue h1 grid1 = gridValue h2 grid2
           \<and> gridValue h1 grid1
               = CalendarView_grid (deref h currentDate) (map (eventValue h) evs) f
           \<and> map (eventValue h1) evs = map (eventValue h) evs
           \<and> map (eventValue h2) evs = map (eventValue h) evs
           \<and> deref h1 currentDate = deref h currentDate
           \<and> deref h2 currentDate = deref h currentDate
           \<and> extends h h1 \<and> extends h1 h2"
proof -
  obtain grid1 h1 where r1:
    "CalendarView_obj currentDate evs f h = (grid1, h1)"
    "gridValue h1 grid1 = CalendarView_grid (deref h currentDate) (map (eventValue h) evs) f"
    "extends h h1" "gridAllocated h1 grid1"
    using CalendarView_obj_spec[OF assms] by blast
  have c1: "currentDate < fresh h1" using extends_fresh[OF r1(3) assms(1)] .
  have a1: "allocated h1 evs" using allocated_extends[OF r1(3) assms(2)] .
  obtain grid2 h2 where r2:
    "CalendarView_obj currentDate evs f h1 = (grid2, h2)"
    "gridValue h2 grid2 = CalendarView_grid (deref h1 currentDate) (map (eventValue h1) evs) f"
    "extends h1 h2" "gridAllocated h2 grid2"
    using CalendarView_obj_spec[OF c1 a1] by blast
  have e2: "extends h h2" using extends_trans[OF r1(3) r2(3)] .
  have v1: "map (eventValue h1) evs = map (eventValue h) evs"
    using eventValue_extends[OF r1(3) assms(2)] .
  have v2: "map (eventValue h2) evs = map (eventValue h) evs"
    using eventValue_extends[OF e2 assms(2)] .
  have d1: "deref h1 currentDate = deref h currentDate"
    using extends_deref[OF r1(3) assms(1)] .
  have d2: "deref h2 currentDate = deref h currentDate"
    using extends_deref[OF e2 assms(1)] .
  have same: "gridValue h1 grid1 = gridValue h2 grid2"
    by (simp add: r1(2) r2(2) v1 d1)
  have later: "gridValue h2 grid1 = gridValue h1 grid1"
    using gridValue_extends[OF r2(3) r1(4)] .
  show ?thesis
    using r1(1,2,3) r2(1,3) v1 v2 d1 d2 same later
    by (intro exI[of _ grid1] exI[of _ h1] exI[of _ grid2] exI[of _ h2]) simp
qed

theorem grid_projector_idempotent_witness:
  "0 < fresh viewHeap \<and> allocated viewHeap viewEvents
   \<and> (\<exists>grid1 h1 grid2 h2.
         CalendarView_obj 0 viewEvents showAll viewHeap = (grid1, h1)
         \<and> CalendarView_obj 0 viewEvents showAll h1 = (grid2, h2)
         \<and> gridValue h1 grid1 = gridValue h2 grid2
         \<and> map (eventValue h2) viewEvents = map (eventValue viewHeap) viewEvents)"
proof -
  have h: "0 < fresh viewHeap" "allocated viewHeap viewEvents"
    by (simp_all add: viewHeap_def viewEvents_def allocated_def)
  show ?thesis
    using grid_projector_idempotent[OF h, of showAll] h by blast
qed

end
